theory Spec2Isabelle
  imports Main "HOL-Library.Char_ord"
begin

section \<open>Syntactic handling of propositional formulas (propositions/syntax.py)\<close>

text \<open>
  The module is embedded function by function. Python strings are modelled as
  \<^typ>\<open>string\<close>; a character is compared by its code point, as Python
  does. On the code points a \<^typ>\<open>char\<close> can hold, \<open>str.isdecimal\<close> is
  true exactly for the digits \<open>0\<close> to \<open>9\<close>. Every exception the
  source can raise is a value of \<open>error\<close>, and a function that can raise returns
  a sum whose left summand is the exception.
\<close>

datatype error = IndexError | AssertionError | AttributeError | ValueError string

subsection \<open>Symbol classifiers\<close>

text \<open>\<open>str.isdecimal\<close>: the string is not empty and all its characters are decimal digits.\<close>

definition decimal_digit :: "char \<Rightarrow> bool" where
  "decimal_digit c = (CHR ''0'' \<le> c \<and> c \<le> CHR ''9'')"

definition isdecimal :: "string \<Rightarrow> bool" where
  "isdecimal s = (s \<noteq> [] \<and> list_all decimal_digit s)"

text \<open>
  \<open>is_variable\<close> reads \<open>string[0]\<close> before anything else, which raises
  \<open>IndexError\<close> on the empty string. The \<open>lru_cache\<close> decorators do not
  change any result and are left out.
\<close>

fun is_variable :: "string \<Rightarrow> error + bool" where
  "is_variable [] = Inl IndexError"
| "is_variable (c # cs) =
     Inr (CHR ''p'' \<le> c \<and> c \<le> CHR ''z'' \<and> (length (c # cs) = 1 \<or> isdecimal cs))"

definition is_constant :: "string \<Rightarrow> bool" where
  "is_constant string = (string = ''T'' \<or> string = ''F'')"

definition is_unary :: "string \<Rightarrow> bool" where
  "is_unary string = (string = ''~'')"

definition is_binary :: "string \<Rightarrow> bool" where
  "is_binary string = (string = ''&'' \<or> string = ''|'' \<or> string = ''->'')"

subsection \<open>The class Formula\<close>

text \<open>
  A \<open>Formula\<close> object has the attributes \<open>root\<close>, \<open>now\<close> and \<open>next\<close>
  (the selector \<open>next'\<close>); an operand the constructor does not set is \<open>None\<close> here.
\<close>

datatype Formula = Formula (root: string) (now: "Formula option") (next': "Formula option")

text \<open>
  \<open>Formula.__init__\<close>: the three branches with their assertions. The test
  \<open>is_variable(root) or is_constant(root)\<close> calls \<open>is_variable\<close> first, so an
  empty root raises \<open>IndexError\<close>.
\<close>

definition Formula_init :: "string \<Rightarrow> Formula option \<Rightarrow> Formula option \<Rightarrow> error + Formula" where
  "Formula_init r n x =
     (case is_variable r of
        Inl e \<Rightarrow> Inl e
      | Inr v \<Rightarrow>
          if v \<or> is_constant r then
            (if n = None \<and> x = None then Inr (Formula r None None) else Inl AssertionError)
          else if is_unary r then
            (if n \<noteq> None \<and> x = None then Inr (Formula r n None) else Inl AssertionError)
          else if is_binary r then
            (if n \<noteq> None \<and> x \<noteq> None then Inr (Formula r n x) else Inl AssertionError)
          else Inl AssertionError)"

text \<open>
  The trees that exist at run time are those the constructor returns for operands that
  were themselves built by it: \<open>constructed f\<close> says that \<open>f\<close> is what
  \<open>Formula_init\<close> returns for the root and operands of \<open>f\<close>, and that the
  operands are constructed too.
\<close>

fun constructed :: "Formula \<Rightarrow> bool" where
  "constructed (Formula r n x) =
     (Formula_init r n x = Inr (Formula r n x) \<and>
      (case n of None \<Rightarrow> True | Some a \<Rightarrow> constructed a) \<and>
      (case x of None \<Rightarrow> True | Some b \<Rightarrow> constructed b))"

text \<open>
  \<open>Formula.__repr__\<close>. Reading an operand that was never set raises
  \<open>AttributeError\<close>; it cannot happen on a constructed tree. The memoization
  decorator does not change the result.
\<close>

fun repr :: "Formula \<Rightarrow> error + string" where
  "repr (Formula r n x) =
     (if is_unary r then
        (case n of
           None \<Rightarrow> Inl AttributeError
         | Some a \<Rightarrow> (case repr a of Inl e \<Rightarrow> Inl e | Inr s \<Rightarrow> Inr (r @ s)))
      else
        (case (if is_constant r then Inr True else is_variable r) of
           Inl e \<Rightarrow> Inl e
         | Inr True \<Rightarrow> Inr r
         | Inr False \<Rightarrow>
             (case n of
                None \<Rightarrow> Inl AttributeError
              | Some a \<Rightarrow>
                  (case repr a of
                     Inl e \<Rightarrow> Inl e
                   | Inr s1 \<Rightarrow>
                       (case x of
                          None \<Rightarrow> Inl AttributeError
                        | Some b \<Rightarrow>
                            (case repr b of
                               Inl e \<Rightarrow> Inl e
                             | Inr s2 \<Rightarrow> Inr (''('' @ s1 @ r @ s2 @ '')'')))))))"

text \<open>\<open>Formula.__eq__\<close> on two formulas: their string representations are compared.\<close>

definition Formula_eq :: "Formula \<Rightarrow> Formula \<Rightarrow> error + bool" where
  "Formula_eq self other =
     (case repr self of
        Inl e \<Rightarrow> Inl e
      | Inr s \<Rightarrow> (case repr other of Inl e \<Rightarrow> Inl e | Inr t \<Rightarrow> Inr (s = t)))"

text \<open>
  \<open>Formula.__hash__\<close> is the built-in hash of the string representation; the
  built-in hash of strings is the parameter \<open>h\<close>.
\<close>

definition Formula_hash :: "(string \<Rightarrow> int) \<Rightarrow> Formula \<Rightarrow> error + int" where
  "Formula_hash h self = (case repr self of Inl e \<Rightarrow> Inl e | Inr s \<Rightarrow> Inr (h s))"

text \<open>\<open>Formula.variables\<close> and \<open>Formula.operators\<close>.\<close>

fun variables :: "Formula \<Rightarrow> error + string set" where
  "variables (Formula r n x) =
     (if is_constant r then Inr {}
      else
        (case is_variable r of
           Inl e \<Rightarrow> Inl e
         | Inr True \<Rightarrow> Inr {r}
         | Inr False \<Rightarrow>
             (case n of
                None \<Rightarrow> Inl AttributeError
              | Some a \<Rightarrow>
                  if is_unary r then variables a
                  else
                    (case variables a of
                       Inl e \<Rightarrow> Inl e
                     | Inr va \<Rightarrow>
                         (case x of
                            None \<Rightarrow> Inl AttributeError
                          | Some b \<Rightarrow>
                              (case variables b of
                                 Inl e \<Rightarrow> Inl e
                               | Inr vb \<Rightarrow> Inr (va \<union> vb)))))))"

fun operators :: "Formula \<Rightarrow> error + string set" where
  "operators (Formula r n x) =
     (case is_variable r of
        Inl e \<Rightarrow> Inl e
      | Inr True \<Rightarrow> Inr {}
      | Inr False \<Rightarrow>
          if is_constant r then Inr {r}
          else
            (case n of
               None \<Rightarrow> Inl AttributeError
             | Some a \<Rightarrow>
                 (case operators a of
                    Inl e \<Rightarrow> Inl e
                  | Inr oa \<Rightarrow>
                      if is_unary r then Inr ({r} \<union> oa)
                      else
                        (case x of
                           None \<Rightarrow> Inl AttributeError
                         | Some b \<Rightarrow>
                             (case operators b of
                                Inl e \<Rightarrow> Inl e
                              | Inr ob \<Rightarrow> Inr ({r} \<union> oa \<union> ob))))))"

subsection \<open>The infix parser\<close>

text \<open>\<open>s.startswith(p)\<close>, and \<open>s.startswith(p, i)\<close> which looks at \<open>s[i:]\<close>.\<close>

definition startswith :: "string \<Rightarrow> string \<Rightarrow> bool" where
  "startswith s p = (take (length p) s = p)"

definition startswith_at :: "string \<Rightarrow> string \<Rightarrow> nat \<Rightarrow> bool" where
  "startswith_at s p i = startswith (drop i s) p"

text \<open>
  The \<open>for\<close> loop of \<open>_parse_prefix\<close> over the operator candidates: the first
  candidate that the text starts with, and the text after it. \<open>candidates\<close> is the
  list the loop runs over, in its order.
\<close>

fun match_operator :: "string list \<Rightarrow> string \<Rightarrow> (string \<times> string) option" where
  "match_operator [] ost = None"
| "match_operator (i # more) ost =
     (if startswith ost i then Some (i, drop (length i) ost) else match_operator more ost)"

definition candidates :: "string list" where
  "candidates = [''<->'', ''-&'', ''->'', ''-|'', ''&'', ''|'', ''+'']"

text \<open>
  The \<open>while\<close> loop that both parsers use to read the digits of a variable name:
  from index \<open>num\<close>, advance while the character at the index is decimal.
\<close>

function scan_decimal :: "string \<Rightarrow> nat \<Rightarrow> nat" where
  "scan_decimal string num =
     (if num < length string \<and> isdecimal [string ! num]
      then scan_decimal string (num + 1) else num)"
  by pat_completeness auto
termination
  by (relation "measure (\<lambda>(string, num). length string - num)") auto

declare scan_decimal.simps [simp del]

text \<open>\<open>Formula._parse_prefix\<close>.\<close>

function parse_prefix :: "string \<Rightarrow> error + (Formula option \<times> string)" where
  "parse_prefix [] = Inr (None, ''End of input'')"
| "parse_prefix (symb # rest) =
    (if is_constant [symb] then
       (case Formula_init [symb] None None of
          Inl e \<Rightarrow> Inl e
        | Inr f \<Rightarrow> Inr (Some f, rest))
     else if symb = CHR ''('' then
       (case parse_prefix rest of
          Inl e \<Rightarrow> Inl e
        | Inr (None, ost) \<Rightarrow> Inr (None, ost)
        | Inr (Some now1, ost) \<Rightarrow>
            if ost = [] then Inr (None, ''Missing operator'')
            else
              (case match_operator candidates ost of
                 None \<Rightarrow> Inr (None, ''Invalid operator'')
               | Some (chr, ost1) \<Rightarrow>
                   if is_binary chr then
                     (case parse_prefix ost1 of
                        Inl e \<Rightarrow> Inl e
                      | Inr (None, ost2) \<Rightarrow> Inr (None, ost2)
                      | Inr (Some next1, ost2) \<Rightarrow>
                          if ost2 = [] then Inr (None, ''Not closed'')
                          else if hd ost2 = CHR '')'' then
                            (case Formula_init chr (Some now1) (Some next1) of
                               Inl e \<Rightarrow> Inl e
                             | Inr f \<Rightarrow> Inr (Some f, tl ost2))
                          else Inr (None, ''Not closed''))
                   else Inr (None, ''Invalid operator'')))
     else if symb = CHR ''~'' then
       (case parse_prefix rest of
          Inl e \<Rightarrow> Inl e
        | Inr (None, ost) \<Rightarrow> Inr (None, ost)
        | Inr (Some leaf, ost) \<Rightarrow>
            (case Formula_init ''~'' (Some leaf) None of
               Inl e \<Rightarrow> Inl e
             | Inr f \<Rightarrow> Inr (Some f, ost)))
     else if CHR ''p'' \<le> symb \<and> symb \<le> CHR ''z'' then
       (let num = scan_decimal (symb # rest) 1;
            res = take num (symb # rest)
        in case is_variable res of
             Inl e \<Rightarrow> Inl e
           | Inr v \<Rightarrow>
               if v then
                 (case Formula_init res None None of
                    Inl e \<Rightarrow> Inl e
                  | Inr f \<Rightarrow> Inr (Some f, drop num (symb # rest)))
               else Inr (None, ''Invalid''))
     else Inr (None, ''Invalid pref''))"
  by pat_completeness auto

text \<open>
  The second call of the parenthesis branch is on what the first call left, so the
  termination proof needs that a successful call returns a shorter text.
\<close>

lemma match_operator_length:
  "match_operator ops y = Some (chr, y1) \<Longrightarrow> length y1 \<le> length y"
  by (induction ops) (auto split: if_splits)

lemma scan_decimal_ge: "num \<le> scan_decimal string num"
proof (induction string num rule: scan_decimal.induct)
  case (1 string num)
  show ?case
  proof (cases "num < length string \<and> isdecimal [string ! num]")
    case True
    with "1.IH" have "num + 1 \<le> scan_decimal string (num + 1)" by simp
    with True show ?thesis by (simp add: scan_decimal.simps [of string num])
  next
    case False
    then show ?thesis by (auto simp add: scan_decimal.simps [of string num])
  qed
qed

lemma parse_prefix_dom_length:
  "parse_prefix_dom s \<Longrightarrow> parse_prefix s = Inr (Some f, ost) \<Longrightarrow> length ost < length s"
proof (induction s arbitrary: f ost rule: parse_prefix.pinduct)
  case 1
  then show ?case by (simp add: parse_prefix.psimps)
next
  case (2 symb rest)
  note eq = parse_prefix.psimps(2) [OF "2.hyps"]
  note unf = "2.prems" [unfolded eq]
  have pos: "0 < scan_decimal (symb # rest) 1"
    using scan_decimal_ge [of 1 "symb # rest"] by simp
  show ?case
  proof (cases "is_constant [symb]")
    case True
    with unf show ?thesis by (auto split: sum.splits)
  next
    case nc: False
    show ?thesis
    proof (cases "symb = CHR ''(''")
      case True
      from unf nc True obtain a y chr y1 b y2 where
        a: "parse_prefix rest = Inr (Some a, y)" and y: "y \<noteq> []" and
        m: "match_operator candidates y = Some (chr, y1)" and
        bin: "is_binary chr" and
        b: "parse_prefix y1 = Inr (Some b, y2)" and ost: "ost = tl y2"
        by (auto simp del: match_operator.simps
              split: if_splits sum.splits option.splits prod.splits)
      from "2.IH"(1) [OF nc True a] have 1: "length y < length rest" .
      from m have 2: "length y1 \<le> length y" by (rule match_operator_length)
      from "2.IH"(2) [OF nc True a refl refl y m refl _ b] bin
      have 3: "length y2 < length y1" by simp
      from 1 2 3 ost show ?thesis by simp
    next
      case np: False
      show ?thesis
      proof (cases "symb = CHR ''~''")
        case True
        from unf nc np True obtain a where a: "parse_prefix rest = Inr (Some a, ost)"
          by (auto split: if_splits sum.splits option.splits prod.splits)
        from "2.IH"(3) [OF nc np True a] show ?thesis by simp
      next
        case False
        with unf nc np pos show ?thesis
          by (auto simp add: Let_def split: if_splits sum.splits)
      qed
    qed
  qed
qed

termination parse_prefix
  by (relation "measure length")
     (auto dest!: parse_prefix_dom_length match_operator_length simp del: match_operator.simps)

declare parse_prefix.simps(2) [simp del]

text \<open>\<open>Formula.is_formula\<close> and \<open>Formula.parse\<close>.\<close>

definition is_formula :: "string \<Rightarrow> error + bool" where
  "is_formula string =
     (case parse_prefix string of
        Inl e \<Rightarrow> Inl e
      | Inr (formula, ost) \<Rightarrow> Inr (formula \<noteq> None \<and> ost = []))"

definition parse :: "string \<Rightarrow> error + Formula" where
  "parse string =
     (case is_formula string of
        Inl e \<Rightarrow> Inl e
      | Inr ok \<Rightarrow>
          if ok then
            (case parse_prefix string of
               Inl e \<Rightarrow> Inl e
             | Inr (formula, ost) \<Rightarrow>
                 (case formula of
                    None \<Rightarrow> Inl AssertionError
                  | Some f \<Rightarrow> if ost = [] then Inr f else Inl AssertionError))
          else Inl AssertionError)"

subsection \<open>Polish notation\<close>

text \<open>\<open>Formula.polish\<close>.\<close>

fun polish :: "Formula \<Rightarrow> error + string" where
  "polish (Formula r n x) =
     (case (if is_constant r then Inr True else is_variable r) of
        Inl e \<Rightarrow> Inl e
      | Inr True \<Rightarrow> Inr r
      | Inr False \<Rightarrow>
          (case n of
             None \<Rightarrow> Inl AttributeError
           | Some a \<Rightarrow>
               (case polish a of
                  Inl e \<Rightarrow> Inl e
                | Inr s1 \<Rightarrow>
                    if is_unary r then Inr (r @ s1)
                    else
                      (case x of
                         None \<Rightarrow> Inl AttributeError
                       | Some b \<Rightarrow>
                           (case polish b of
                              Inl e \<Rightarrow> Inl e
                            | Inr s2 \<Rightarrow> Inr (r @ s1 @ s2))))))"

text \<open>
  \<open>Formula.parse_polish\<close>, first loop: the tokens of \<open>string\<close> from index
  \<open>i\<close> on are appended to \<open>res\<close>.
\<close>

function tokenize_loop :: "string \<Rightarrow> nat \<Rightarrow> string list \<Rightarrow> error + string list" where
  "tokenize_loop string i res =
     (if i < length string then
        (let symb = string ! i in
         if symb = CHR ''T'' \<or> symb = CHR ''F'' then
           tokenize_loop string (i + 1) (res @ [[symb]])
         else if symb = CHR ''~'' then
           tokenize_loop string (i + 1) (res @ [''~''])
         else if symb \<in> {CHR ''&'', CHR ''|'', CHR ''+''} then
           tokenize_loop string (i + 1) (res @ [[symb]])
         else if startswith_at string ''<->'' i then
           tokenize_loop string (i + 3) (res @ [''<->''])
         else if startswith_at string ''->'' i then
           tokenize_loop string (i + 2) (res @ [''->''])
         else if startswith_at string ''-&'' i then
           tokenize_loop string (i + 2) (res @ [''-&''])
         else if startswith_at string ''-|'' i then
           tokenize_loop string (i + 2) (res @ [''-|''])
         else if CHR ''p'' \<le> symb \<and> symb \<le> CHR ''z'' then
           (let next1 = scan_decimal string (i + 1);
                leaf = take (next1 - i) (drop i string)
            in case is_variable leaf of
                 Inl e \<Rightarrow> Inl e
               | Inr v \<Rightarrow>
                   if v then tokenize_loop string next1 (res @ [leaf])
                   else Inl (ValueError ''Invalid variable''))
         else Inl (ValueError ''Invalid symbol''))
      else Inr res)"
  by pat_completeness auto
termination
proof (relation "measure (\<lambda>(string, i, res). length string - i)", goal_cases)
  case (9 string i res symb next1 leaf v)
  have "i + 1 \<le> scan_decimal string (i + 1)" by (rule scan_decimal_ge)
  with 9 show ?case by simp
qed auto

declare tokenize_loop.simps [simp del]

text \<open>
  Second loop: the tokens are read from the last to the first; \<open>res_string\<close> is the
  stack, \<open>append\<close> adds at its end and \<open>pop\<close> removes its last element.
  \<open>reduce_step\<close> is the body of the loop for one token \<open>el\<close>, \<open>reduce_loop\<close>
  the loop; a \<open>raise\<close> in the body ends the loop.
\<close>

definition reduce_step :: "string \<Rightarrow> Formula list \<Rightarrow> error + Formula list" where
  "reduce_step el res_string =
     (case (if is_constant el then Inr True else is_variable el) of
        Inl e \<Rightarrow> Inl e
      | Inr True \<Rightarrow>
          (case Formula_init el None None of
             Inl e \<Rightarrow> Inl e
           | Inr f \<Rightarrow> Inr (res_string @ [f]))
      | Inr False \<Rightarrow>
          if is_binary el then
            (if length res_string < 2 then Inl (ValueError ''Invalid'')
             else
               (let now1 = last res_string;
                    popped = butlast res_string;
                    next1 = last popped;
                    popped2 = butlast popped
                in case Formula_init el (Some now1) (Some next1) of
                     Inl e \<Rightarrow> Inl e
                   | Inr f \<Rightarrow> Inr (popped2 @ [f])))
          else if is_unary el then
            (if length res_string < 1 then Inl (ValueError ''Invalid'')
             else
               (let leaf = last res_string;
                    popped = butlast res_string
                in case Formula_init el (Some leaf) None of
                     Inl e \<Rightarrow> Inl e
                   | Inr f \<Rightarrow> Inr (popped @ [f])))
          else Inl (ValueError ''Invalid''))"

fun reduce_loop :: "string list \<Rightarrow> Formula list \<Rightarrow> error + Formula list" where
  "reduce_loop [] res_string = Inr res_string"
| "reduce_loop (el # more) res_string =
     (case reduce_step el res_string of
        Inl e \<Rightarrow> Inl e
      | Inr stack \<Rightarrow> reduce_loop more stack)"

definition parse_polish :: "string \<Rightarrow> error + Formula" where
  "parse_polish string =
     (case tokenize_loop string 0 [] of
        Inl e \<Rightarrow> Inl e
      | Inr res \<Rightarrow>
          (case reduce_loop (rev res) [] of
             Inl e \<Rightarrow> Inl e
           | Inr res_string \<Rightarrow>
               if length res_string = 1 then Inr (res_string ! 0)
               else Inl (ValueError ''Invalid'')))"

subsection \<open>Substitutions\<close>

text \<open>
  \<open>Formula.substitute_variables\<close> and \<open>Formula.substitute_operators\<close>: in
  the source both bodies end after the loop that checks the keys of the map, so a call
  that passes the checks returns Python's \<open>None\<close>, which is \<open>None\<close> here. The map
  is the list of its items in iteration order.
\<close>

fun check_variable_keys :: "(string \<times> Formula) list \<Rightarrow> error + unit" where
  "check_variable_keys [] = Inr ()"
| "check_variable_keys ((variable, f) # more) =
     (case is_variable variable of
        Inl e \<Rightarrow> Inl e
      | Inr v \<Rightarrow> if v then check_variable_keys more else Inl AssertionError)"

definition substitute_variables :: "Formula \<Rightarrow> (string \<times> Formula) list \<Rightarrow> error + Formula option" where
  "substitute_variables self substitution_map =
     (case check_variable_keys substitution_map of
        Inl e \<Rightarrow> Inl e
      | Inr u \<Rightarrow> Inr None)"

fun check_operator_keys :: "(string \<times> Formula) list \<Rightarrow> error + unit" where
  "check_operator_keys [] = Inr ()"
| "check_operator_keys ((operator, f) # more) =
     (if is_constant operator \<or> is_unary operator \<or> is_binary operator then
        (case variables f of
           Inl e \<Rightarrow> Inl e
         | Inr vs \<Rightarrow> if vs \<subseteq> {''p'', ''q''} then check_operator_keys more else Inl AssertionError)
      else Inl AssertionError)"

definition substitute_operators :: "Formula \<Rightarrow> (string \<times> Formula) list \<Rightarrow> error + Formula option" where
  "substitute_operators self substitution_map =
     (case check_operator_keys substitution_map of
        Inl e \<Rightarrow> Inl e
      | Inr u \<Rightarrow> Inr None)"

section \<open>Verification\<close>

subsection \<open>Symbol classifiers\<close>

text \<open>
  Claim C8: the four classifiers return a boolean for every string, the empty string
  included. \<open>is_constant\<close>, \<open>is_unary\<close> and \<open>is_binary\<close> do; \<open>is_variable\<close>
  does not: on the empty string it raises \<open>IndexError\<close>.
\<close>

theorem is_variable_empty_raises:
  "is_variable [] = Inl IndexError \<and> is_constant [] = False \<and> is_unary [] = False \<and> is_binary [] = False"
  by (simp add: is_constant_def is_unary_def is_binary_def)

subsection \<open>Facts about the classifiers and the constructor\<close>

lemma isdecimal_single [simp]: "isdecimal [c] = decimal_digit c"
  by (simp add: isdecimal_def)

lemma letter_not_digit: "CHR ''p'' \<le> c \<Longrightarrow> \<not> decimal_digit c"
  by (auto simp add: decimal_digit_def less_eq_char_def)

lemma is_variable_iff:
  "is_variable r = Inr True \<longleftrightarrow>
     (\<exists>c ds. r = c # ds \<and> CHR ''p'' \<le> c \<and> c \<le> CHR ''z'' \<and> list_all decimal_digit ds)"
  by (cases r) (auto simp add: isdecimal_def)

lemma is_variable_Cons:
  "is_variable (c # ds) = Inr (CHR ''p'' \<le> c \<and> c \<le> CHR ''z'' \<and> list_all decimal_digit ds)"
  by (cases ds) (auto simp add: isdecimal_def)

lemma is_variable_total: "r \<noteq> [] \<Longrightarrow> \<exists>b. is_variable r = Inr b"
  by (cases r) simp_all

lemma is_binary_not_variable: "is_binary r \<Longrightarrow> is_variable r = Inr False"
  by (auto simp add: is_binary_def less_eq_char_def)

lemma is_unary_not_variable: "is_unary r \<Longrightarrow> is_variable r = Inr False"
  by (auto simp add: is_unary_def less_eq_char_def)

lemma is_constant_not_variable: "is_constant r \<Longrightarrow> is_variable r = Inr False"
  by (auto simp add: is_constant_def less_eq_char_def)

lemma is_binary_not_others: "is_binary r \<Longrightarrow> \<not> is_constant r \<and> \<not> is_unary r"
  by (auto simp add: is_binary_def is_constant_def is_unary_def)

lemma is_unary_not_constant: "is_unary r \<Longrightarrow> \<not> is_constant r"
  by (auto simp add: is_constant_def is_unary_def)

subsection \<open>Constructor\<close>

lemma Formula_init_result: "Formula_init r n x = Inr f \<Longrightarrow> f = Formula r n x"
  by (auto simp add: Formula_init_def split: sum.splits if_splits)

lemma Formula_init_leaf:
  "is_constant r \<or> is_variable r = Inr True \<Longrightarrow> Formula_init r None None = Inr (Formula r None None)"
  by (auto simp add: Formula_init_def is_constant_not_variable)

lemma Formula_init_unary:
  "Formula_init ''~'' (Some a) None = Inr (Formula ''~'' (Some a) None)"
  by (simp add: Formula_init_def is_constant_def is_unary_def less_eq_char_def)

lemma Formula_init_binary:
  "is_binary r \<Longrightarrow> Formula_init r (Some a) (Some b) = Inr (Formula r (Some a) (Some b))"
  by (simp add: Formula_init_def is_binary_not_variable is_binary_not_others)

lemma constructed_iff:
  "constructed (Formula r n x) \<longleftrightarrow>
     (n = None \<and> x = None \<and> (is_constant r \<or> is_variable r = Inr True)) \<or>
     (r = ''~'' \<and> x = None \<and> (\<exists>a. n = Some a \<and> constructed a)) \<or>
     (is_binary r \<and> (\<exists>a b. n = Some a \<and> x = Some b \<and> constructed a \<and> constructed b))"
  by (auto simp add: Formula_init_def is_unary_def is_binary_not_variable is_binary_not_others
        is_constant_not_variable is_constant_def is_binary_def
        split: sum.splits if_splits option.splits)

declare constructed.simps [simp del]

lemma constructed_leaf:
  "constructed (Formula r None None) \<longleftrightarrow> is_constant r \<or> is_variable r = Inr True"
  by (simp add: constructed_iff)

lemma constructed_unary:
  "constructed (Formula ''~'' (Some a) None) \<longleftrightarrow> constructed a"
  by (simp add: constructed_iff is_constant_def less_eq_char_def)

lemma constructed_binary:
  "is_binary r \<Longrightarrow> constructed (Formula r (Some a) (Some b)) \<longleftrightarrow> constructed a \<and> constructed b"
  by (simp add: constructed_iff)

lemma constructed_induct [consumes 1, case_names leaf unary binary]:
  assumes "constructed f"
    and "\<And>r. is_constant r \<or> is_variable r = Inr True \<Longrightarrow> P (Formula r None None)"
    and "\<And>a. constructed a \<Longrightarrow> P a \<Longrightarrow> P (Formula ''~'' (Some a) None)"
    and "\<And>r a b. is_binary r \<Longrightarrow> constructed a \<Longrightarrow> constructed b \<Longrightarrow> P a \<Longrightarrow> P b \<Longrightarrow>
           P (Formula r (Some a) (Some b))"
  shows "P f"
  using assms(1)
proof (induction f)
  case (Formula r n x)
  from Formula.prems consider
      (l) "n = None" "x = None" "is_constant r \<or> is_variable r = Inr True"
    | (u) a where "r = ''~''" "x = None" "n = Some a" "constructed a"
    | (b) a b where "is_binary r" "n = Some a" "x = Some b" "constructed a" "constructed b"
    unfolding constructed_iff by blast
  then show ?case
  proof cases
    case l
    then show ?thesis using assms(2) by simp
  next
    case u
    then show ?thesis using assms(3) Formula.IH(1) by simp
  next
    case b
    then show ?thesis using assms(4) Formula.IH by simp
  qed
qed

subsection \<open>String representation\<close>

lemma repr_leaf:
  "is_constant r \<or> is_variable r = Inr True \<Longrightarrow> repr (Formula r None None) = Inr r"
  by (auto simp add: is_unary_def is_constant_def less_eq_char_def)

lemma repr_unary:
  "repr (Formula ''~'' (Some a) None) = (case repr a of Inl e \<Rightarrow> Inl e | Inr s \<Rightarrow> Inr (''~'' @ s))"
  by (simp add: is_unary_def)

lemma repr_binary:
  "is_binary r \<Longrightarrow> repr (Formula r (Some a) (Some b)) =
     (case repr a of Inl e \<Rightarrow> Inl e
      | Inr s1 \<Rightarrow> (case repr b of Inl e \<Rightarrow> Inl e | Inr s2 \<Rightarrow> Inr (''('' @ s1 @ r @ s2 @ '')'')))"
  by (simp add: is_binary_not_variable is_binary_not_others split: sum.splits)

declare repr.simps [simp del]

lemma repr_total: "constructed f \<Longrightarrow> \<exists>s. repr f = Inr s"
proof (induction f rule: constructed_induct)
  case (leaf r)
  then show ?case using repr_leaf by blast
next
  case (unary a)
  then show ?case by (auto simp add: repr_unary)
next
  case (binary r a b)
  then show ?case by (auto simp add: repr_binary)
qed

subsection \<open>The digit scan\<close>

lemma scan_decimal_takeWhile:
  "num \<le> length string \<Longrightarrow>
     scan_decimal string num = num + length (takeWhile decimal_digit (drop num string))"
proof (induction string num rule: scan_decimal.induct)
  case (1 string num)
  show ?case
  proof (cases "num < length string \<and> isdecimal [string ! num]")
    case True
    then have d: "drop num string = string ! num # drop (Suc num) string"
      by (simp add: Cons_nth_drop_Suc)
    from True "1.IH" have
      "scan_decimal string (num + 1) = num + 1 + length (takeWhile decimal_digit (drop (num + 1) string))"
      by simp
    with True d show ?thesis by (simp add: scan_decimal.simps [of string num])
  next
    case False
    show ?thesis
    proof (cases "num < length string")
      case True
      then have d: "drop num string = string ! num # drop (Suc num) string"
        by (simp add: Cons_nth_drop_Suc)
      from True False d show ?thesis by (simp add: scan_decimal.simps [of string num])
    next
      case False
      with "1.prems" have "num = length string" by simp
      then show ?thesis by (simp add: scan_decimal.simps [of string "length string"])
    qed
  qed
qed

lemma scan_decimal_1:
  "scan_decimal (c # rest) (Suc 0) = Suc (length (takeWhile decimal_digit rest))"
  using scan_decimal_takeWhile [of 1 "c # rest"] by simp

lemma take_scan: "take (scan_decimal (c # rest) (Suc 0)) (c # rest) = c # takeWhile decimal_digit rest"
proof -
  have "take (length (takeWhile decimal_digit rest)) rest = takeWhile decimal_digit rest"
    by (metis append_eq_conv_conj takeWhile_dropWhile_id)
  then show ?thesis by (simp add: scan_decimal_1)
qed

lemma drop_scan: "drop (scan_decimal (c # rest) (Suc 0)) (c # rest) = dropWhile decimal_digit rest"
proof -
  have "drop (length (takeWhile decimal_digit rest)) rest = dropWhile decimal_digit rest"
    by (metis append_eq_conv_conj takeWhile_dropWhile_id)
  then show ?thesis by (simp add: scan_decimal_1)
qed

subsection \<open>The operator candidates\<close>

lemma startswith_append: "startswith s p \<longleftrightarrow> s = p @ drop (length p) s"
  unfolding startswith_def by (metis append_eq_conv_conj append_take_drop_id)

lemma match_operator_sound:
  "match_operator ops y = Some (chr, y1) \<Longrightarrow> chr \<in> set ops \<and> y = chr @ y1"
  by (induction ops) (auto simp add: startswith_append split: if_splits)

lemma match_operator_None:
  "match_operator ops y = None \<longleftrightarrow> (\<forall>p \<in> set ops. \<not> startswith y p)"
  by (induction ops) auto

lemma match_candidates:
  "match_operator candidates (''<->'' @ z) = Some (''<->'', z)"
  "match_operator candidates (''-&'' @ z) = Some (''-&'', z)"
  "match_operator candidates (''->'' @ z) = Some (''->'', z)"
  "match_operator candidates (''-|'' @ z) = Some (''-|'', z)"
  "match_operator candidates (''&'' @ z) = Some (''&'', z)"
  "match_operator candidates (''|'' @ z) = Some (''|'', z)"
  "match_operator candidates (''+'' @ z) = Some (''+'', z)"
  by (simp_all add: candidates_def startswith_def)

lemma match_candidates_binary:
  "is_binary r \<Longrightarrow> match_operator candidates (r @ z) = Some (r, z)"
  unfolding is_binary_def using match_candidates by blast

subsection \<open>The parser, branch by branch\<close>

lemma parse_prefix_constant:
  "is_constant [c] \<Longrightarrow> parse_prefix (c # rest) = Inr (Some (Formula [c] None None), rest)"
  by (simp add: parse_prefix.simps(2) Formula_init_leaf)

lemma is_variable_takeWhile:
  assumes "CHR ''p'' \<le> c" "c \<le> CHR ''z''"
  shows "is_variable (c # takeWhile decimal_digit rest) = Inr True"
proof -
  have "list_all decimal_digit (takeWhile decimal_digit rest)"
    unfolding list_all_iff by (meson set_takeWhileD)
  with assms show ?thesis by (simp only: is_variable_Cons simp_thms)
qed

lemma letter_facts:
  assumes "CHR ''p'' \<le> c" "c \<le> CHR ''z''"
  shows "\<not> is_constant [c]" "c \<noteq> CHR ''(''" "c \<noteq> CHR ''~''"
  using assms by (auto simp add: is_constant_def less_eq_char_def)

lemma parse_prefix_variable:
  assumes "CHR ''p'' \<le> c" "c \<le> CHR ''z''"
  shows "parse_prefix (c # rest) =
           Inr (Some (Formula (c # takeWhile decimal_digit rest) None None), dropWhile decimal_digit rest)"
proof -
  note v = is_variable_takeWhile [OF assms, of rest]
  have "parse_prefix (c # rest) =
       (let num = scan_decimal (c # rest) 1;
            res = take num (c # rest)
        in case is_variable res of
             Inl e \<Rightarrow> Inl e
           | Inr v \<Rightarrow>
               if v then
                 (case Formula_init res None None of
                    Inl e \<Rightarrow> Inl e
                  | Inr f \<Rightarrow> Inr (Some f, drop num (c # rest)))
               else Inr (None, ''Invalid''))"
    using assms letter_facts [OF assms] by (simp only: parse_prefix.simps(2) if_False if_True simp_thms)
  also have "\<dots> = Inr (Some (Formula (c # takeWhile decimal_digit rest) None None), dropWhile decimal_digit rest)"
    unfolding Let_def One_nat_def take_scan drop_scan v
    by (simp add: Formula_init_leaf [OF disjI2, OF v])
  finally show ?thesis .
qed

lemma parse_prefix_unary:
  "parse_prefix (CHR ''~'' # rest) =
     (case parse_prefix rest of
        Inl e \<Rightarrow> Inl e
      | Inr (None, ost) \<Rightarrow> Inr (None, ost)
      | Inr (Some leaf, ost) \<Rightarrow> Inr (Some (Formula ''~'' (Some leaf) None), ost))"
  by (simp add: parse_prefix.simps(2) is_constant_def Formula_init_unary
        split: sum.splits option.splits prod.splits)

lemma parse_prefix_paren:
  "parse_prefix (CHR ''('' # rest) =
     (case parse_prefix rest of
        Inl e \<Rightarrow> Inl e
      | Inr (None, ost) \<Rightarrow> Inr (None, ost)
      | Inr (Some a, ost) \<Rightarrow>
          if ost = [] then Inr (None, ''Missing operator'')
          else
            (case match_operator candidates ost of
               None \<Rightarrow> Inr (None, ''Invalid operator'')
             | Some (chr, ost1) \<Rightarrow>
                 if is_binary chr then
                   (case parse_prefix ost1 of
                      Inl e \<Rightarrow> Inl e
                    | Inr (None, ost2) \<Rightarrow> Inr (None, ost2)
                    | Inr (Some b, ost2) \<Rightarrow>
                        if ost2 = [] then Inr (None, ''Not closed'')
                        else if hd ost2 = CHR '')'' then
                          Inr (Some (Formula chr (Some a) (Some b)), tl ost2)
                        else Inr (None, ''Not closed''))
                 else Inr (None, ''Invalid operator'')))"
  by (simp add: parse_prefix.simps(2) is_constant_def Formula_init_binary candidates_def
        del: match_operator.simps
        split: sum.splits option.splits prod.splits)

lemma parse_prefix_other:
  "\<not> is_constant [c] \<Longrightarrow> c \<noteq> CHR ''('' \<Longrightarrow> c \<noteq> CHR ''~'' \<Longrightarrow> \<not> (CHR ''p'' \<le> c \<and> c \<le> CHR ''z'') \<Longrightarrow>
     parse_prefix (c # rest) = Inr (None, ''Invalid pref'')"
  by (cases "CHR ''p'' \<le> c") (simp_all add: parse_prefix.simps(2))

lemma takeWhile_digits_append:
  "list_all P ds \<Longrightarrow> rest = [] \<or> \<not> P (hd rest) \<Longrightarrow> takeWhile P (ds @ rest) = ds"
  by (induction ds) (auto simp add: takeWhile_eq_Nil_iff neq_Nil_conv)

lemma dropWhile_digits_append:
  "list_all P ds \<Longrightarrow> rest = [] \<or> \<not> P (hd rest) \<Longrightarrow> dropWhile P (ds @ rest) = rest"
  by (induction ds) (auto simp add: dropWhile_eq_self_iff neq_Nil_conv)

lemma binary_first_not_digit: "is_binary r \<Longrightarrow> r \<noteq> [] \<and> \<not> decimal_digit (hd (r @ z))"
  by (auto simp add: is_binary_def decimal_digit_def less_eq_char_def)

lemma parse_prefix_binary_step:
  assumes r: "is_binary r"
    and a: "parse_prefix (sa @ r @ sb @ '')'' @ rest) = Inr (Some a, r @ sb @ '')'' @ rest)"
    and b: "parse_prefix (sb @ '')'' @ rest) = Inr (Some b, '')'' @ rest)"
  shows "parse_prefix (''('' @ sa @ r @ sb @ '')'' @ rest) = Inr (Some (Formula r (Some a) (Some b)), rest)"
proof -
  from r have ne: "r @ sb @ '')'' @ rest \<noteq> []" by (auto simp add: is_binary_def)
  from r have m: "match_operator candidates (r @ sb @ '')'' @ rest) = Some (r, sb @ '')'' @ rest)"
    by (rule match_candidates_binary)
  have "parse_prefix (CHR ''('' # sa @ r @ sb @ '')'' @ rest) =
          Inr (Some (Formula r (Some a) (Some b)), rest)"
    unfolding parse_prefix_paren a using ne m r b by simp
  then show ?thesis by simp
qed

lemma parse_prefix_repr:
  "constructed f \<Longrightarrow> repr f = Inr s \<Longrightarrow> rest = [] \<or> \<not> decimal_digit (hd rest) \<Longrightarrow>
     parse_prefix (s @ rest) = Inr (Some f, rest)"
proof (induction f arbitrary: s rest rule: constructed_induct)
  case (leaf r)
  from leaf.hyps leaf.prems(1) have s: "s = r" by (simp add: repr_leaf)
  from leaf.hyps show ?case
  proof
    assume "is_constant r"
    then obtain c where "r = [c]" "is_constant [c]" by (auto simp add: is_constant_def)
    with s show ?thesis using parse_prefix_constant [of c rest] by simp
  next
    assume "is_variable r = Inr True"
    then obtain c ds where r: "r = c # ds" and c: "CHR ''p'' \<le> c" "c \<le> CHR ''z''"
      and ds: "list_all decimal_digit ds"
      unfolding is_variable_iff by blast
    from ds leaf.prems(2) have "takeWhile decimal_digit (ds @ rest) = ds"
      "dropWhile decimal_digit (ds @ rest) = rest"
      by (simp_all add: takeWhile_digits_append dropWhile_digits_append)
    with parse_prefix_variable [OF c, of "ds @ rest"] s r show ?thesis by simp
  qed
next
  case (unary a)
  from unary.prems(1) obtain sa where sa: "repr a = Inr sa" and s: "s = ''~'' @ sa"
    by (auto simp add: repr_unary split: sum.splits)
  from unary.IH [OF sa unary.prems(2)] have "parse_prefix (sa @ rest) = Inr (Some a, rest)" .
  with s show ?case by (simp add: parse_prefix_unary)
next
  case (binary r a b)
  from binary.prems(1) binary.hyps(1) obtain sa sb where
    sa: "repr a = Inr sa" and sb: "repr b = Inr sb" and s: "s = ''('' @ sa @ r @ sb @ '')''"
    by (auto simp add: repr_binary split: sum.splits)
  from binary.hyps(1) have "\<not> decimal_digit (hd (r @ sb @ '')'' @ rest))"
    using binary_first_not_digit by blast
  then have pa: "parse_prefix (sa @ r @ sb @ '')'' @ rest) = Inr (Some a, r @ sb @ '')'' @ rest)"
    using binary.IH(1) [OF sa] by blast
  have "\<not> decimal_digit (hd ('')'' @ rest))"
    by (simp add: decimal_digit_def less_eq_char_def)
  then have pb: "parse_prefix (sb @ '')'' @ rest) = Inr (Some b, '')'' @ rest)"
    using binary.IH(2) [OF sb] by blast
  from parse_prefix_binary_step [OF binary.hyps(1) pa pb] s show ?case by simp
qed

lemma parse_prefix_extends:
  "constructed g \<Longrightarrow> repr g = Inr q \<Longrightarrow>
     \<exists>f rest. parse_prefix (q @ r) = Inr (Some f, rest) \<and> length rest \<le> length r"
proof (induction g arbitrary: q r rule: constructed_induct)
  case (leaf v)
  from leaf.hyps leaf.prems(1) have q: "q = v" by (simp add: repr_leaf)
  from leaf.hyps show ?case
  proof
    assume "is_constant v"
    then obtain c where "v = [c]" "is_constant [c]" by (auto simp add: is_constant_def)
    with q show ?thesis using parse_prefix_constant [of c r] by simp
  next
    assume "is_variable v = Inr True"
    then obtain c ds where v: "v = c # ds" and c: "CHR ''p'' \<le> c" "c \<le> CHR ''z''"
      and ds: "list_all decimal_digit ds"
      unfolding is_variable_iff by blast
    from ds have "dropWhile decimal_digit (ds @ r) = dropWhile decimal_digit r"
      by (simp add: dropWhile_append2 list_all_iff)
    then have "length (dropWhile decimal_digit (ds @ r)) \<le> length r"
      by (simp add: length_dropWhile_le)
    with parse_prefix_variable [OF c, of "ds @ r"] q v show ?thesis by simp
  qed
next
  case (unary a)
  from unary.prems(1) obtain sa where sa: "repr a = Inr sa" and q: "q = ''~'' @ sa"
    by (auto simp add: repr_unary split: sum.splits)
  from unary.IH [OF sa, of r] obtain f rest where
    "parse_prefix (sa @ r) = Inr (Some f, rest)" "length rest \<le> length r" by blast
  with q show ?case by (simp add: parse_prefix_unary)
next
  case (binary op a b)
  from binary.prems(1) binary.hyps(1) obtain sa sb where
    sa: "repr a = Inr sa" and sb: "repr b = Inr sb" and q: "q = ''('' @ sa @ op @ sb @ '')''"
    by (auto simp add: repr_binary split: sum.splits)
  from binary.hyps(1) have "\<not> decimal_digit (hd (op @ sb @ '')'' @ r))"
    using binary_first_not_digit by blast
  then have pa: "parse_prefix (sa @ op @ sb @ '')'' @ r) = Inr (Some a, op @ sb @ '')'' @ r)"
    using parse_prefix_repr [OF binary.hyps(2) sa] by blast
  have "\<not> decimal_digit (hd ('')'' @ r))"
    by (simp add: decimal_digit_def less_eq_char_def)
  then have pb: "parse_prefix (sb @ '')'' @ r) = Inr (Some b, '')'' @ r)"
    using parse_prefix_repr [OF binary.hyps(3) sb] by blast
  from parse_prefix_binary_step [OF binary.hyps(1) pa pb] q show ?case by simp
qed

lemma parse_prefix_sound_total:
  "(\<exists>res. parse_prefix s = Inr res) \<and>
   (\<forall>f rest. parse_prefix s = Inr (Some f, rest) \<longrightarrow>
      constructed f \<and> (\<exists>p. repr f = Inr p \<and> s = p @ rest))"
proof (induction s rule: length_induct)
  case (1 s)
  note IH = "1.IH" [rule_format]
  show ?case
  proof (cases s)
    case Nil
    then show ?thesis by simp
  next
    case (Cons c cs)
    from IH [of cs] Cons have tot_cs: "\<exists>res. parse_prefix cs = Inr res"
      and snd_cs: "\<And>f rest. parse_prefix cs = Inr (Some f, rest) \<Longrightarrow>
             constructed f \<and> (\<exists>p. repr f = Inr p \<and> cs = p @ rest)"
      by simp_all
    consider (const) "is_constant [c]"
      | (paren) "c = CHR ''(''"
      | (neg) "c = CHR ''~''"
      | (var) "CHR ''p'' \<le> c" "c \<le> CHR ''z''"
      | (other) "\<not> is_constant [c]" "c \<noteq> CHR ''(''" "c \<noteq> CHR ''~''"
          "\<not> (CHR ''p'' \<le> c \<and> c \<le> CHR ''z'')"
      by blast
    then show ?thesis
    proof cases
      case const
      then show ?thesis
        unfolding Cons by (auto simp add: parse_prefix_constant constructed_leaf repr_leaf)
    next
      case var
      have "is_variable (c # takeWhile decimal_digit cs) = Inr True"
        by (rule is_variable_takeWhile [OF var])
      then show ?thesis
        unfolding Cons by (simp add: parse_prefix_variable [OF var] constructed_leaf repr_leaf
            del: is_variable.simps)
    next
      case other
      then show ?thesis unfolding Cons by (simp add: parse_prefix_other)
    next
      case neg
      from tot_cs obtain res where res: "parse_prefix cs = Inr res" by blast
      show ?thesis
      proof (cases res)
        case (Pair fo ost)
        show ?thesis
        proof (cases fo)
          case None
          with res Pair neg show ?thesis unfolding Cons by (simp add: parse_prefix_unary)
        next
          case (Some a)
          with res Pair have pa: "parse_prefix cs = Inr (Some a, ost)" by simp
          from snd_cs [OF pa] obtain p where "constructed a" "repr a = Inr p" "cs = p @ ost"
            by blast
          with pa neg show ?thesis
            unfolding Cons by (simp add: parse_prefix_unary constructed_unary repr_unary)
        qed
      qed
    next
      case paren
      from tot_cs obtain res where res: "parse_prefix cs = Inr res" by blast
      show ?thesis
      proof (cases res)
        case (Pair fo ost)
        show ?thesis
        proof (cases fo)
          case None
          with res Pair paren show ?thesis unfolding Cons by (simp add: parse_prefix_paren)
        next
          case (Some a)
          with res Pair have pa: "parse_prefix cs = Inr (Some a, ost)" by simp
          from snd_cs [OF pa] obtain p where a: "constructed a" "repr a = Inr p" "cs = p @ ost"
            by blast
          show ?thesis
          proof (cases "ost = [] \<or> match_operator candidates ost = None")
            case True
            with pa paren show ?thesis unfolding Cons by (auto simp add: parse_prefix_paren)
          next
            case False
            then obtain chr ost1 where m: "match_operator candidates ost = Some (chr, ost1)"
              and ne: "ost \<noteq> []" by auto
            from match_operator_sound [OF m] have ost: "ost = chr @ ost1" by simp
            show ?thesis
            proof (cases "is_binary chr")
              case False
              with pa paren m ne show ?thesis unfolding Cons by (simp add: parse_prefix_paren)
            next
              case bin: True
              from a(3) ost Cons have "length ost1 < length s" by simp
              from IH [OF this] have tot1: "\<exists>res. parse_prefix ost1 = Inr res"
                and snd1: "\<And>f rest. parse_prefix ost1 = Inr (Some f, rest) \<Longrightarrow>
                    constructed f \<and> (\<exists>p. repr f = Inr p \<and> ost1 = p @ rest)"
                by simp_all
              from tot1 obtain res1 where res1: "parse_prefix ost1 = Inr res1" by blast
              show ?thesis
              proof (cases res1)
                case (Pair fo1 ost2)
                show ?thesis
                proof (cases fo1)
                  case None
                  with res1 Pair pa paren m ne bin show ?thesis
                    unfolding Cons by (simp add: parse_prefix_paren)
                next
                  case (Some b)
                  with res1 Pair have pb: "parse_prefix ost1 = Inr (Some b, ost2)" by simp
                  from snd1 [OF pb] obtain q where
                    b: "constructed b" "repr b = Inr q" "ost1 = q @ ost2" by blast
                  show ?thesis
                  proof (cases "ost2 \<noteq> [] \<and> hd ost2 = CHR '')''")
                    case False
                    with pa pb paren m ne bin show ?thesis
                      unfolding Cons by (auto simp add: parse_prefix_paren)
                  next
                    case True
                    then have o2: "ost2 = CHR '')'' # tl ost2" by (cases ost2) simp_all
                    from True pa pb paren m ne bin have
                      "parse_prefix (c # cs) = Inr (Some (Formula chr (Some a) (Some b)), tl ost2)"
                      by (simp add: parse_prefix_paren)
                    moreover have "constructed (Formula chr (Some a) (Some b))"
                      using bin a(1) b(1) by (simp add: constructed_binary)
                    moreover have "repr (Formula chr (Some a) (Some b)) = Inr (''('' @ p @ chr @ q @ '')'')"
                      using bin a(2) b(2) by (simp add: repr_binary)
                    moreover have "c # cs = (''('' @ p @ chr @ q @ '')'') @ tl ost2"
                      using paren a(3) ost b(3) o2 by simp
                    ultimately show ?thesis unfolding Cons by simp
                  qed
                qed
              qed
            qed
          qed
        qed
      qed
    qed
  qed
qed

lemma parse_prefix_total: "\<exists>res. parse_prefix s = Inr res"
  using parse_prefix_sound_total by blast

lemma parse_prefix_sound:
  "parse_prefix s = Inr (Some f, rest) \<Longrightarrow> constructed f \<and> (\<exists>p. repr f = Inr p \<and> s = p @ rest)"
  using parse_prefix_sound_total by blast

lemma is_formula_iff: "is_formula s = Inr (\<exists>f. parse_prefix s = Inr (Some f, []))"
proof -
  from parse_prefix_total obtain res where "parse_prefix s = Inr res" by blast
  then show ?thesis by (cases res) (auto simp add: is_formula_def)
qed

lemma parse_iff: "parse s = Inr f \<longleftrightarrow> parse_prefix s = Inr (Some f, [])"
  unfolding parse_def is_formula_iff
  by (auto split: sum.splits option.splits prod.splits if_splits)

lemma parse_repr: "constructed f \<Longrightarrow> repr f = Inr s \<Longrightarrow> parse s = Inr f"
  using parse_prefix_repr [of f s "[]"] by (simp add: parse_iff)

subsection \<open>Round trip between trees and their string representation\<close>

text \<open>
  Claim C1: for every tree \<open>f\<close> built by the constructor, \<open>parse(str(f))\<close> returns
  \<open>f\<close> itself, which \<open>==\<close> accepts; and for every string \<open>t\<close> with
  \<open>is_formula(t)\<close> true, \<open>parse(t)\<close> returns a tree whose string representation is
  \<open>t\<close>.
\<close>

theorem parse_repr_round_trip:
  "(constructed f \<longrightarrow>
      (\<exists>s g. repr f = Inr s \<and> parse s = Inr g \<and> g = f \<and> Formula_eq g f = Inr True)) \<and>
   (is_formula t = Inr True \<longrightarrow>
      (\<exists>g. parse t = Inr g \<and> constructed g \<and> repr g = Inr t))"
proof (intro conjI impI)
  assume f: "constructed f"
  then obtain s where s: "repr f = Inr s" using repr_total by blast
  with f have "parse s = Inr f" by (rule parse_repr)
  with s show "\<exists>s g. repr f = Inr s \<and> parse s = Inr g \<and> g = f \<and> Formula_eq g f = Inr True"
    by (simp add: Formula_eq_def)
next
  assume "is_formula t = Inr True"
  then obtain g where g: "parse_prefix t = Inr (Some g, [])"
    unfolding is_formula_iff by auto
  from parse_prefix_sound [OF g] have "constructed g" "repr g = Inr t" by auto
  with g show "\<exists>g. parse t = Inr g \<and> constructed g \<and> repr g = Inr t"
    by (simp add: parse_iff)
qed

theorem parse_repr_round_trip_witness:
  "constructed (Formula ''->'' (Some (Formula ''p1'' None None))
       (Some (Formula ''~'' (Some (Formula ''T'' None None)) None))) \<and>
   repr (Formula ''->'' (Some (Formula ''p1'' None None))
       (Some (Formula ''~'' (Some (Formula ''T'' None None)) None))) = Inr ''(p1->~T)'' \<and>
   parse ''(p1->~T)'' = Inr (Formula ''->'' (Some (Formula ''p1'' None None))
       (Some (Formula ''~'' (Some (Formula ''T'' None None)) None))) \<and>
   is_formula ''(p1->~T)'' = Inr True"
proof -
  let ?f = "Formula ''->'' (Some (Formula ''p1'' None None))
       (Some (Formula ''~'' (Some (Formula ''T'' None None)) None))"
  have c: "constructed ?f" by code_simp
  have r: "repr ?f = Inr ''(p1->~T)''" by code_simp
  have i: "is_formula ''(p1->~T)'' = Inr True" by code_simp
  from parse_repr_round_trip [of ?f "''(p1->~T)''"] c r i show ?thesis by auto
qed

lemma repr_inject:
  assumes "constructed f" "constructed g" "repr f = repr g"
  shows "f = g"
proof -
  from assms(1) obtain s where s: "repr f = Inr s" using repr_total by blast
  with assms(1) have "parse s = Inr f" by (rule parse_repr)
  moreover from s assms(3) have "repr g = Inr s" by simp
  with assms(2) have "parse s = Inr g" by (rule parse_repr)
  ultimately show ?thesis by simp
qed

text \<open>
  Claim C5: the string representation is injective on constructed trees, so \<open>==\<close>, which
  compares string representations, is structural equality; equal trees have equal hashes.
\<close>

theorem repr_injective:
  "constructed f \<Longrightarrow> constructed g \<Longrightarrow>
     (repr f = repr g \<longleftrightarrow> f = g) \<and> Formula_eq f g = Inr (f = g) \<and>
     (f = g \<longrightarrow> Formula_hash h f = Formula_hash h g)"
proof -
  assume f: "constructed f" and g: "constructed g"
  from f obtain s where s: "repr f = Inr s" using repr_total by blast
  from g obtain t where t: "repr g = Inr t" using repr_total by blast
  have inj: "repr f = repr g \<longleftrightarrow> f = g" using repr_inject [OF f g] by auto
  with s t have "Formula_eq f g = Inr (f = g)" by (auto simp add: Formula_eq_def)
  with inj show ?thesis by simp
qed

theorem repr_injective_witness:
  "Formula_eq (Formula ''&'' (Some (Formula ''p'' None None)) (Some (Formula ''q'' None None)))
              (Formula ''&'' (Some (Formula ''q'' None None)) (Some (Formula ''p'' None None)))
     = Inr False \<and>
   repr (Formula ''&'' (Some (Formula ''p'' None None)) (Some (Formula ''q'' None None))) \<noteq>
   repr (Formula ''&'' (Some (Formula ''q'' None None)) (Some (Formula ''p'' None None)))"
proof -
  let ?f = "Formula ''&'' (Some (Formula ''p'' None None)) (Some (Formula ''q'' None None))"
  let ?g = "Formula ''&'' (Some (Formula ''q'' None None)) (Some (Formula ''p'' None None))"
  have f: "constructed ?f" by code_simp
  have g: "constructed ?g" by code_simp
  from repr_injective [OF f g] show ?thesis by simp
qed

subsection \<open>Validity check and longest prefix\<close>

text \<open>
  Claim C6: \<open>is_formula(string)\<close> is true exactly when \<open>_parse_prefix(string)\<close> returns a
  formula and the empty remainder, and false otherwise; \<open>(p&q)\<close> is a formula,
  \<open>p&q\<close> and \<open>((p&q)\<close> are not.
\<close>

theorem is_formula_spec:
  "is_formula string = Inr (\<exists>f. parse_prefix string = Inr (Some f, [])) \<and>
   is_formula ''(p&q)'' = Inr True \<and>
   is_formula ''p&q'' = Inr False \<and>
   is_formula ''((p&q)'' = Inr False"
proof -
  have "is_formula ''(p&q)'' = Inr True" by code_simp
  moreover have "is_formula ''p&q'' = Inr False" by code_simp
  moreover have "is_formula ''((p&q)'' = Inr False" by code_simp
  ultimately show ?thesis using is_formula_iff [of string] by simp
qed

text \<open>
  Claim C7: \<open>_parse_prefix\<close> never raises; it returns a formula exactly when the text
  starts with the string representation of some constructed tree; the formula it returns
  is constructed, the text is its string representation followed by the remainder, and no
  string representation of a tree that the text starts with is longer. A variable name
  takes all the digits that follow its letter. On \<open>q7&p\<close> the result is the variable
  \<open>q7\<close> and the remainder \<open>&p\<close>; on the empty string it is no formula and the
  message \<open>End of input\<close>.
\<close>

theorem parse_prefix_longest:
  "(\<exists>res. parse_prefix s = Inr res) \<and>
   ((\<exists>f rest. parse_prefix s = Inr (Some f, rest)) \<longleftrightarrow>
      (\<exists>g q r. constructed g \<and> repr g = Inr q \<and> s = q @ r)) \<and>
   (parse_prefix s = Inr (Some f, rest) \<longrightarrow>
      constructed f \<and>
      (\<exists>p. repr f = Inr p \<and> s = p @ rest \<and>
           (\<forall>g q r. constructed g \<and> repr g = Inr q \<and> s = q @ r \<longrightarrow> length q \<le> length p))) \<and>
   (CHR ''p'' \<le> c \<and> c \<le> CHR ''z'' \<longrightarrow>
      parse_prefix (c # more) =
        Inr (Some (Formula (c # takeWhile decimal_digit more) None None),
             dropWhile decimal_digit more)) \<and>
   parse_prefix ''q7&p'' = Inr (Some (Formula ''q7'' None None), ''&p'') \<and>
   parse_prefix '''' = Inr (None, ''End of input'')"
proof (intro conjI impI)
  show "\<exists>res. parse_prefix s = Inr res" by (rule parse_prefix_total)
next
  show "(\<exists>f rest. parse_prefix s = Inr (Some f, rest)) \<longleftrightarrow>
      (\<exists>g q r. constructed g \<and> repr g = Inr q \<and> s = q @ r)"
  proof
    assume "\<exists>f rest. parse_prefix s = Inr (Some f, rest)"
    then show "\<exists>g q r. constructed g \<and> repr g = Inr q \<and> s = q @ r"
      using parse_prefix_sound by blast
  next
    assume "\<exists>g q r. constructed g \<and> repr g = Inr q \<and> s = q @ r"
    then show "\<exists>f rest. parse_prefix s = Inr (Some f, rest)"
      using parse_prefix_extends by blast
  qed
next
  assume p: "parse_prefix s = Inr (Some f, rest)"
  from parse_prefix_sound [OF p] show "constructed f" by simp
  from parse_prefix_sound [OF p] obtain p' where p': "repr f = Inr p'" "s = p' @ rest" by blast
  have "length q \<le> length p'" if "constructed g \<and> repr g = Inr q \<and> s = q @ r" for g q r
  proof -
    from that parse_prefix_extends [of g q r] obtain f' rest' where
      "parse_prefix (q @ r) = Inr (Some f', rest')" "length rest' \<le> length r" by blast
    with that p have "length rest \<le> length r" by simp
    moreover from that p'(2) have "length p' + length rest = length q + length r"
      by (metis length_append)
    ultimately show ?thesis by simp
  qed
  with p' show "\<exists>p. repr f = Inr p \<and> s = p @ rest \<and>
           (\<forall>g q r. constructed g \<and> repr g = Inr q \<and> s = q @ r \<longrightarrow> length q \<le> length p)"
    by blast
next
  assume "CHR ''p'' \<le> c \<and> c \<le> CHR ''z''"
  then show "parse_prefix (c # more) =
        Inr (Some (Formula (c # takeWhile decimal_digit more) None None),
             dropWhile decimal_digit more)"
    by (simp add: parse_prefix_variable)
next
  show "parse_prefix ''q7&p'' = Inr (Some (Formula ''q7'' None None), ''&p'')" by code_simp
next
  show "parse_prefix '''' = Inr (None, ''End of input'')" by simp
qed

theorem parse_prefix_longest_witness:
  "parse_prefix ''q7&p'' = Inr (Some (Formula ''q7'' None None), ''&p'') \<and>
   constructed (Formula ''q7'' None None) \<and>
   (\<exists>p. repr (Formula ''q7'' None None) = Inr p \<and> ''q7&p'' = p @ ''&p'' \<and>
        length ''q'' \<le> length p)"
proof -
  have 1: "parse_prefix ''q7&p'' = Inr (Some (Formula ''q7'' None None), ''&p'')" by code_simp
  have 2: "constructed (Formula ''q'' None None) \<and> repr (Formula ''q'' None None) = Inr ''q'' \<and>
           ''q7&p'' = ''q'' @ ''7&p''" by code_simp
  have 3: "CHR ''p'' \<le> CHR ''q'' \<and> CHR ''q'' \<le> CHR ''z''" by code_simp
  from parse_prefix_longest [of "''q7&p''" "Formula ''q7'' None None" "''&p''" "CHR ''q''" "''7&p''"]
    1 2 3 show ?thesis by blast
qed

subsection \<open>Tokens of the Polish notation\<close>

text \<open>
  \<open>next_token\<close> is the token that one round of the first loop of
  \<open>parse_polish\<close> reads at the start of the remaining text, or \<open>None\<close> where the
  round raises; \<open>tokenize_loop_next\<close> below proves that the loop does this.
\<close>

fun next_token :: "string \<Rightarrow> string option" where
  "next_token [] = None"
| "next_token (c # cs) =
     (if c = CHR ''T'' \<or> c = CHR ''F'' \<or> c = CHR ''~'' \<or> c = CHR ''&'' \<or> c = CHR ''|'' \<or> c = CHR ''+''
      then Some [c]
      else if startswith (c # cs) ''<->'' then Some ''<->''
      else if startswith (c # cs) ''->'' then Some ''->''
      else if startswith (c # cs) ''-&'' then Some ''-&''
      else if startswith (c # cs) ''-|'' then Some ''-|''
      else if CHR ''p'' \<le> c \<and> c \<le> CHR ''z'' then Some (c # takeWhile decimal_digit cs)
      else None)"

lemma take_length_takeWhile: "take (length (takeWhile P xs)) xs = takeWhile P xs"
  by (metis append_eq_conv_conj takeWhile_dropWhile_id)

lemma tokenize_loop_end: "length string \<le> i \<Longrightarrow> tokenize_loop string i res = Inr res"
  by (simp add: tokenize_loop.simps [of string i res])

lemma tokenize_loop_next:
  assumes i: "i < length string"
  shows "tokenize_loop string i res =
           (case next_token (drop i string) of
              None \<Rightarrow> Inl (ValueError ''Invalid symbol'')
            | Some t \<Rightarrow> tokenize_loop string (i + length t) (res @ [t]))"
proof -
  define c where "c = string ! i"
  define cs where "cs = drop (Suc i) string"
  from i have d: "drop i string = c # cs"
    by (simp add: c_def cs_def Cons_nth_drop_Suc)
  show ?thesis
  proof (cases "CHR ''p'' \<le> c \<and> c \<le> CHR ''z''")
    case False
    then have nl: "(CHR ''p'' \<le> c \<and> c \<le> CHR ''z'') = False" by simp
    from i d show ?thesis
      by (simp add: tokenize_loop.simps [of string i res] c_def [symmetric] startswith_at_def
            Let_def nl eval_nat_numeral)
  next
    case True
    then have l: "CHR ''p'' \<le> c" "c \<le> CHR ''z''" by simp_all
    from l have nl: "c \<noteq> CHR ''T''" "c \<noteq> CHR ''F''" "c \<noteq> CHR ''~''" "c \<noteq> CHR ''&''"
      "c \<noteq> CHR ''|''" "c \<noteq> CHR ''+''" "c \<noteq> CHR ''<''" "c \<noteq> CHR ''-''"
      by (auto simp add: less_eq_char_def)
    from nl have ns: "\<not> startswith (c # cs) ''<->''" "\<not> startswith (c # cs) ''->''"
      "\<not> startswith (c # cs) ''-&''" "\<not> startswith (c # cs) ''-|''"
      by (simp_all add: startswith_def)
    from i have "scan_decimal string (i + 1) = i + 1 + length (takeWhile decimal_digit cs)"
      by (simp add: scan_decimal_takeWhile cs_def)
    then have sc: "scan_decimal string (Suc i) = Suc (i + length (takeWhile decimal_digit cs))"
      by simp
    have df: "Suc (i + length (takeWhile decimal_digit cs)) - i
        = Suc (length (takeWhile decimal_digit cs))"
      by simp
    have v: "is_variable (c # takeWhile decimal_digit cs) = Inr True"
      by (rule is_variable_takeWhile [OF l])
    have nt: "next_token (drop i string) = Some (c # takeWhile decimal_digit cs)"
      unfolding d using l nl ns by simp
    have "tokenize_loop string i res =
        tokenize_loop string (Suc (i + length (takeWhile decimal_digit cs)))
          (res @ [c # takeWhile decimal_digit cs])"
      using i l nl ns d
      by (simp add: tokenize_loop.simps [of string i res] c_def [symmetric] startswith_at_def
            Let_def sc df take_length_takeWhile v del: is_variable.simps)
    with nt show ?thesis by simp
  qed
qed


text \<open>The tokens that occur in the Polish notation of a constructed tree.\<close>

definition formula_token :: "string \<Rightarrow> bool" where
  "formula_token t = (is_constant t \<or> is_variable t = Inr True \<or> is_unary t \<or> is_binary t)"

lemma formula_token_not_digit:
  "formula_token t \<Longrightarrow> t \<noteq> [] \<and> \<not> decimal_digit (hd (t @ z))"
  unfolding formula_token_def
  by (cases t)
     (auto simp add: is_constant_def is_unary_def is_binary_def decimal_digit_def less_eq_char_def)

lemma concat_tokens_not_digit:
  "list_all formula_token ts \<Longrightarrow> concat ts = [] \<or> \<not> decimal_digit (hd (concat ts))"
  by (cases ts) (auto dest: formula_token_not_digit)

lemma next_token_formula_token:
  assumes t: "formula_token t" and post: "post = [] \<or> \<not> decimal_digit (hd post)"
  shows "next_token (t @ post) = Some t"
proof (cases "is_variable t = Inr True")
  case True
  then obtain c ds where r: "t = c # ds" and c: "CHR ''p'' \<le> c" "c \<le> CHR ''z''"
    and ds: "list_all decimal_digit ds"
    unfolding is_variable_iff by blast
  from c have nl: "c \<noteq> CHR ''T''" "c \<noteq> CHR ''F''" "c \<noteq> CHR ''~''" "c \<noteq> CHR ''&''"
    "c \<noteq> CHR ''|''" "c \<noteq> CHR ''+''" "c \<noteq> CHR ''<''" "c \<noteq> CHR ''-''"
    by (auto simp add: less_eq_char_def)
  from ds post have "takeWhile decimal_digit (ds @ post) = ds"
    by (rule takeWhile_digits_append)
  with c nl show ?thesis by (simp add: r startswith_def)
next
  case False
  with t have "t = ''T'' \<or> t = ''F'' \<or> t = ''~'' \<or> t = ''&'' \<or> t = ''|'' \<or> t = ''->''"
    by (auto simp add: formula_token_def is_constant_def is_unary_def is_binary_def)
  then show ?thesis by (auto simp add: startswith_def)
qed

lemma next_token_Some:
  assumes "next_token s = Some t"
  shows "t \<noteq> [] \<and> s = t @ drop (length t) s \<and>
         (t \<in> set [''T'', ''F'', ''~'', ''&'', ''|'', ''+'', ''<->'', ''->'', ''-&'', ''-|''] \<or>
          is_variable t = Inr True)"
proof (cases s)
  case Nil
  with assms show ?thesis by simp
next
  case (Cons c cs)
  show ?thesis
  proof (cases "CHR ''p'' \<le> c \<and> c \<le> CHR ''z''")
    case True
    then have l: "CHR ''p'' \<le> c" "c \<le> CHR ''z''" by simp_all
    from l have nl: "c \<noteq> CHR ''T''" "c \<noteq> CHR ''F''" "c \<noteq> CHR ''~''" "c \<noteq> CHR ''&''"
      "c \<noteq> CHR ''|''" "c \<noteq> CHR ''+''" "c \<noteq> CHR ''<''" "c \<noteq> CHR ''-''"
      by (auto simp add: less_eq_char_def)
    from assms l nl have t: "t = c # takeWhile decimal_digit cs"
      unfolding Cons by (simp add: startswith_def)
    have "is_variable (c # takeWhile decimal_digit cs) = Inr True"
      by (rule is_variable_takeWhile [OF l])
    moreover have "cs = takeWhile decimal_digit cs @ drop (length (takeWhile decimal_digit cs)) cs"
      by (metis append_take_drop_id take_length_takeWhile)
    ultimately show ?thesis unfolding Cons t by (simp del: is_variable.simps)
  next
    case False
    then have nl: "(CHR ''p'' \<le> c \<and> c \<le> CHR ''z'') = False" by simp
    from assms show ?thesis
      unfolding Cons
      by (auto simp add: nl startswith_append split: if_splits)
  qed
qed

lemma tokenize_loop_tokens:
  "list_all formula_token ts \<Longrightarrow>
     tokenize_loop (pre @ concat ts) (length pre) res = Inr (res @ ts)"
proof (induction ts arbitrary: pre res)
  case Nil
  then show ?case by (simp add: tokenize_loop_end)
next
  case (Cons t ts)
  from Cons.prems have t: "formula_token t" and ts: "list_all formula_token ts" by simp_all
  from t have ne: "t \<noteq> []" using formula_token_not_digit by blast
  from ts have nd: "concat ts = [] \<or> \<not> decimal_digit (hd (concat ts))"
    by (rule concat_tokens_not_digit)
  have nt: "next_token (t @ concat ts) = Some t"
    by (rule next_token_formula_token [OF t nd])
  from ne have "length pre < length (pre @ concat (t # ts))" by simp
  then have "tokenize_loop (pre @ concat (t # ts)) (length pre) res =
      tokenize_loop (pre @ concat (t # ts)) (length pre + length t) (res @ [t])"
    by (simp add: tokenize_loop_next nt)
  also have "\<dots> = tokenize_loop ((pre @ t) @ concat ts) (length (pre @ t)) (res @ [t])"
    by simp
  also have "\<dots> = Inr ((res @ [t]) @ ts)" by (rule Cons.IH [OF ts])
  finally show ?case by simp
qed

lemma tokenize_loop_result:
  "i \<le> length string \<Longrightarrow>
     tokenize_loop string i res = Inl (ValueError ''Invalid symbol'') \<or>
     (\<exists>ts. tokenize_loop string i res = Inr (res @ ts) \<and> concat ts = drop i string \<and>
        (\<forall>t \<in> set ts. t \<in> set [''T'', ''F'', ''~'', ''&'', ''|'', ''+'', ''<->'', ''->'', ''-&'', ''-|''] \<or>
          is_variable t = Inr True))"
proof (induction "length string - i" arbitrary: i res rule: less_induct)
  case less
  show ?case
  proof (cases "i < length string")
    case False
    with less.prems have "tokenize_loop string i res = Inr (res @ [])" "concat [] = drop i string"
      by (simp_all add: tokenize_loop_end)
    then show ?thesis by (metis empty_iff list.set(1))
  next
    case True
    note unf = tokenize_loop_next [OF True, of res]
    show ?thesis
    proof (cases "next_token (drop i string)")
      case None
      with unf show ?thesis by simp
    next
      case (Some t)
      from next_token_Some [OF Some] have ne: "t \<noteq> []"
        and d: "drop i string = t @ drop (length t) (drop i string)"
        and lex: "t \<in> set [''T'', ''F'', ''~'', ''&'', ''|'', ''+'', ''<->'', ''->'', ''-&'', ''-|''] \<or>
          is_variable t = Inr True"
        by blast+
      from d have "length t \<le> length (drop i string)"
        by (metis length_append le_add1)
      with True have le: "i + length t \<le> length string" by simp
      from ne True have "length string - (i + length t) < length string - i"
        by (cases t) simp_all
      from less.hyps [OF this le, of "res @ [t]"]
      show ?thesis
      proof (elim disjE)
        assume "tokenize_loop string (i + length t) (res @ [t]) = Inl (ValueError ''Invalid symbol'')"
        with unf Some show ?thesis by simp
      next
        assume "\<exists>ts. tokenize_loop string (i + length t) (res @ [t]) = Inr ((res @ [t]) @ ts) \<and>
           concat ts = drop (i + length t) string \<and>
           (\<forall>t\<in>set ts. t \<in> set [''T'', ''F'', ''~'', ''&'', ''|'', ''+'', ''<->'', ''->'', ''-&'', ''-|''] \<or>
              is_variable t = Inr True)"
        then obtain ts where ts: "tokenize_loop string (i + length t) (res @ [t]) = Inr ((res @ [t]) @ ts)"
          "concat ts = drop (i + length t) string"
          "\<forall>t\<in>set ts. t \<in> set [''T'', ''F'', ''~'', ''&'', ''|'', ''+'', ''<->'', ''->'', ''-&'', ''-|''] \<or>
              is_variable t = Inr True"
          by blast
        from ts(2) d have "concat (t # ts) = drop i string"
          by (simp add: add.commute)
        moreover from ts(1) unf Some have "tokenize_loop string i res = Inr (res @ t # ts)" by simp
        moreover from ts(3) lex have "\<forall>t\<in>set (t # ts). t \<in> set [''T'', ''F'', ''~'', ''&'', ''|'', ''+'', ''<->'', ''->'', ''-&'', ''-|''] \<or>
              is_variable t = Inr True" by simp
        ultimately show ?thesis by blast
      qed
    qed
  qed
qed

subsection \<open>Polish notation of a tree\<close>

text \<open>The tokens of the Polish notation of a tree, in order.\<close>

fun tokens_of :: "Formula \<Rightarrow> string list" where
  "tokens_of (Formula r n x) =
     r # (case n of None \<Rightarrow> [] | Some a \<Rightarrow> tokens_of a) @
         (case x of None \<Rightarrow> [] | Some b \<Rightarrow> tokens_of b)"

lemma polish_leaf:
  "is_constant r \<or> is_variable r = Inr True \<Longrightarrow> polish (Formula r None None) = Inr r"
  by auto

lemma polish_unary:
  "polish (Formula ''~'' (Some a) None) =
     (case polish a of Inl e \<Rightarrow> Inl e | Inr s \<Rightarrow> Inr (''~'' @ s))"
  by (simp add: is_unary_def is_constant_def less_eq_char_def split: sum.splits)

lemma polish_binary:
  "is_binary r \<Longrightarrow> polish (Formula r (Some a) (Some b)) =
     (case polish a of Inl e \<Rightarrow> Inl e
      | Inr s1 \<Rightarrow> (case polish b of Inl e \<Rightarrow> Inl e | Inr s2 \<Rightarrow> Inr (r @ s1 @ s2)))"
  by (simp add: is_binary_not_variable is_binary_not_others split: sum.splits)

declare polish.simps [simp del]

lemma polish_tokens: "constructed f \<Longrightarrow> polish f = Inr (concat (tokens_of f))"
proof (induction f rule: constructed_induct)
  case (leaf r)
  then show ?case using polish_leaf [of r] by simp
next
  case (unary a)
  then show ?case by (simp add: polish_unary)
next
  case (binary r a b)
  then show ?case by (simp add: polish_binary)
qed

lemma tokens_of_formula_tokens: "constructed f \<Longrightarrow> list_all formula_token (tokens_of f)"
proof (induction f rule: constructed_induct)
  case (leaf r)
  then show ?case by (auto simp add: formula_token_def)
next
  case (unary a)
  then show ?case by (simp add: formula_token_def is_unary_def)
next
  case (binary r a b)
  then show ?case by (simp add: formula_token_def)
qed

subsection \<open>The stack machine\<close>

lemma not_leaf:
  assumes "is_binary el \<or> is_unary el"
  shows "(if is_constant el then Inr True else is_variable el) = Inr False"
  using assms is_binary_not_variable is_binary_not_others is_unary_not_variable
    is_unary_not_constant by auto

lemma reduce_step_leaf:
  assumes "is_constant el \<or> is_variable el = Inr True"
  shows "reduce_step el st = Inr (st @ [Formula el None None])"
proof -
  from assms have "(if is_constant el then Inr True else is_variable el) = Inr True" by auto
  then show ?thesis by (simp add: reduce_step_def Formula_init_leaf [OF assms])
qed

lemma reduce_step_binary:
  assumes "is_binary el"
  shows "reduce_step el (st @ [b, a]) = Inr (st @ [Formula el (Some a) (Some b)])"
proof -
  have "butlast (st @ [b, a]) = st @ [b]" by (simp add: butlast_append)
  then show ?thesis
    using assms not_leaf [of el]
    by (simp add: reduce_step_def Formula_init_binary Let_def)
qed

lemma reduce_step_binary_short:
  "is_binary el \<Longrightarrow> length st < 2 \<Longrightarrow> reduce_step el st = Inl (ValueError ''Invalid'')"
  using not_leaf [of el] by (simp add: reduce_step_def)

lemma reduce_step_unary:
  "reduce_step ''~'' (st @ [a]) = Inr (st @ [Formula ''~'' (Some a) None])"
  using not_leaf [of "''~''"]
  by (simp add: reduce_step_def is_unary_def is_binary_def Formula_init_unary)

lemma reduce_step_unary_short:
  "reduce_step ''~'' [] = Inl (ValueError ''Invalid'')"
  using not_leaf [of "''~''"]
  by (simp add: reduce_step_def is_unary_def is_binary_def)

lemma reduce_step_other:
  assumes "el \<noteq> []" "\<not> formula_token el"
  shows "reduce_step el st = Inl (ValueError ''Invalid'')"
proof -
  from assms(1) obtain b where b: "is_variable el = Inr b" using is_variable_total by blast
  with assms(2) have "is_variable el = Inr False" by (cases b) (simp_all add: formula_token_def)
  with assms(2) show ?thesis by (simp add: reduce_step_def formula_token_def)
qed

lemma reduce_loop_append:
  "reduce_loop (pre @ more) st =
     (case reduce_loop pre st of Inl e \<Rightarrow> Inl e | Inr st1 \<Rightarrow> reduce_loop more st1)"
  by (induction pre arbitrary: st) (simp_all split: sum.splits)

lemma reduce_loop_tokens:
  "constructed f \<Longrightarrow> reduce_loop (rev (tokens_of f) @ more) st = reduce_loop more (st @ [f])"
proof (induction f arbitrary: more st rule: constructed_induct)
  case (leaf r)
  then show ?case by (simp add: reduce_step_leaf)
next
  case (unary a)
  have "reduce_loop (rev (tokens_of (Formula ''~'' (Some a) None)) @ more) st =
        reduce_loop (rev (tokens_of a) @ ''~'' # more) st" by simp
  also have "\<dots> = reduce_loop (''~'' # more) (st @ [a])" by (rule unary.IH)
  also have "\<dots> = reduce_loop more (st @ [Formula ''~'' (Some a) None])"
    by (simp add: reduce_step_unary)
  finally show ?case .
next
  case (binary r a b)
  have "reduce_loop (rev (tokens_of (Formula r (Some a) (Some b))) @ more) st =
        reduce_loop (rev (tokens_of b) @ rev (tokens_of a) @ r # more) st" by simp
  also have "\<dots> = reduce_loop (rev (tokens_of a) @ r # more) (st @ [b])" by (rule binary.IH(2))
  also have "\<dots> = reduce_loop (r # more) ((st @ [b]) @ [a])" by (rule binary.IH(1))
  also have "\<dots> = reduce_loop more (st @ [Formula r (Some a) (Some b)])"
    using reduce_step_binary [OF binary.hyps(1), of st b a] by simp
  finally show ?case .
qed

lemma parse_polish_polish: "constructed f \<Longrightarrow> polish f = Inr s \<Longrightarrow> parse_polish s = Inr f"
proof -
  assume f: "constructed f" and "polish f = Inr s"
  with polish_tokens have s: "s = concat (tokens_of f)" by simp
  from f have "list_all formula_token (tokens_of f)" by (rule tokens_of_formula_tokens)
  from tokenize_loop_tokens [OF this, of "[]" "[]"]
  have t: "tokenize_loop s 0 [] = Inr (tokens_of f)" by (simp add: s)
  from reduce_loop_tokens [OF f, of "[]" "[]"]
  have "reduce_loop (rev (tokens_of f)) [] = Inr [f]" by simp
  with t show ?thesis by (simp add: parse_polish_def)
qed

lemma reduce_loop_result:
  "\<forall>el \<in> set els. el \<noteq> [] \<Longrightarrow> list_all constructed st \<Longrightarrow>
     reduce_loop els st = Inl (ValueError ''Invalid'') \<or>
     (\<exists>st'. reduce_loop els st = Inr st' \<and> list_all constructed st' \<and>
        list_all formula_token els \<and>
        concat (map (\<lambda>a. concat (tokens_of a)) (rev st')) =
          concat (rev els) @ concat (map (\<lambda>a. concat (tokens_of a)) (rev st)))"
proof (induction els arbitrary: st)
  case Nil
  then show ?case by simp
next
  case (Cons el more)
  from Cons.prems(1) have ne: "el \<noteq> []" and more: "\<forall>el \<in> set more. el \<noteq> []" by simp_all
  note IH = Cons.IH [OF more]
  have step: ?case
    if eq: "reduce_loop (el # more) st = reduce_loop more st1"
      and c: "list_all constructed st1"
      and tok: "formula_token el"
      and cat: "concat (map (\<lambda>a. concat (tokens_of a)) (rev st1)) =
                el @ concat (map (\<lambda>a. concat (tokens_of a)) (rev st))"
    for st1
    using IH [OF c] eq tok cat by auto
  show ?case
  proof (cases "formula_token el")
    case False
    with ne show ?thesis by (simp add: reduce_step_other)
  next
    case True
    then consider (leaf) "is_constant el \<or> is_variable el = Inr True"
      | (bin) "is_binary el" | (un) "el = ''~''"
      by (auto simp add: formula_token_def is_unary_def)
    then show ?thesis
    proof cases
      case leaf
      show ?thesis
      proof (rule step [of "st @ [Formula el None None]"])
        show "reduce_loop (el # more) st = reduce_loop more (st @ [Formula el None None])"
          by (simp add: reduce_step_leaf [OF leaf])
        show "list_all constructed (st @ [Formula el None None])"
          using Cons.prems(2) leaf by (simp add: constructed_leaf)
        show "formula_token el" by (rule True)
        show "concat (map (\<lambda>a. concat (tokens_of a)) (rev (st @ [Formula el None None]))) =
                el @ concat (map (\<lambda>a. concat (tokens_of a)) (rev st))" by simp
      qed
    next
      case un
      show ?thesis
      proof (cases st rule: rev_cases)
        case Nil
        with un show ?thesis by (simp add: reduce_step_unary_short)
      next
        case (snoc st2 a)
        show ?thesis
        proof (rule step [of "st2 @ [Formula ''~'' (Some a) None]"])
          show "reduce_loop (el # more) st = reduce_loop more (st2 @ [Formula ''~'' (Some a) None])"
            unfolding un snoc by (simp add: reduce_step_unary)
          show "list_all constructed (st2 @ [Formula ''~'' (Some a) None])"
            using Cons.prems(2) snoc by (simp add: constructed_unary)
          show "formula_token el" by (rule True)
          show "concat (map (\<lambda>a. concat (tokens_of a)) (rev (st2 @ [Formula ''~'' (Some a) None]))) =
                el @ concat (map (\<lambda>a. concat (tokens_of a)) (rev st))"
            unfolding un snoc by simp
        qed
      qed
    next
      case bin
      show ?thesis
      proof (cases "length st < 2")
        case True
        with bin show ?thesis by (simp add: reduce_step_binary_short)
      next
        case False
        then obtain st1 a where st1: "st = st1 @ [a]" by (cases st rule: rev_cases) auto
        with False obtain st2 b where "st1 = st2 @ [b]" by (cases st1 rule: rev_cases) auto
        with st1 have st: "st = st2 @ [b, a]" by simp
        show ?thesis
        proof (rule step [of "st2 @ [Formula el (Some a) (Some b)]"])
          show "reduce_loop (el # more) st = reduce_loop more (st2 @ [Formula el (Some a) (Some b)])"
            unfolding st by (simp add: reduce_step_binary [OF bin])
          show "list_all constructed (st2 @ [Formula el (Some a) (Some b)])"
            using Cons.prems(2) st bin by (simp add: constructed_binary)
          show "formula_token el" by (rule True)
          show "concat (map (\<lambda>a. concat (tokens_of a)) (rev (st2 @ [Formula el (Some a) (Some b)]))) =
                el @ concat (map (\<lambda>a. concat (tokens_of a)) (rev st))"
            unfolding st by simp
        qed
      qed
    qed
  qed
qed

lemma parse_polish_result:
  "parse_polish s = Inl (ValueError ''Invalid symbol'') \<or>
   parse_polish s = Inl (ValueError ''Invalid'') \<or>
   (\<exists>f ts. parse_polish s = Inr f \<and> constructed f \<and> polish f = Inr s \<and>
      tokenize_loop s 0 [] = Inr ts \<and> list_all formula_token ts)"
proof -
  have "tokenize_loop s 0 [] = Inl (ValueError ''Invalid symbol'') \<or>
     (\<exists>ts. tokenize_loop s 0 [] = Inr ts \<and> concat ts = s \<and>
        (\<forall>t \<in> set ts. t \<in> set [''T'', ''F'', ''~'', ''&'', ''|'', ''+'', ''<->'', ''->'', ''-&'', ''-|''] \<or>
          is_variable t = Inr True))"
    using tokenize_loop_result [of 0 s "[]"] by simp
  then show ?thesis
  proof (elim disjE exE conjE)
    assume "tokenize_loop s 0 [] = Inl (ValueError ''Invalid symbol'')"
    then show ?thesis by (simp add: parse_polish_def)
  next
    fix ts
    assume t: "tokenize_loop s 0 [] = Inr ts" and c: "concat ts = s"
      and lex: "\<forall>t\<in>set ts. t \<in> set [''T'', ''F'', ''~'', ''&'', ''|'', ''+'', ''<->'', ''->'', ''-&'', ''-|''] \<or>
          is_variable t = Inr True"
    have ne: "\<forall>el \<in> set (rev ts). el \<noteq> []"
    proof
      fix el assume "el \<in> set (rev ts)"
      with lex have "el \<in> set [''T'', ''F'', ''~'', ''&'', ''|'', ''+'', ''<->'', ''->'', ''-&'', ''-|''] \<or>
          is_variable el = Inr True" by simp
      then show "el \<noteq> []" by (cases el) simp_all
    qed
    have "list_all constructed []" by simp
    from reduce_loop_result [OF ne this] show ?thesis
    proof (elim disjE exE conjE)
      assume "reduce_loop (rev ts) [] = Inl (ValueError ''Invalid'')"
      with t show ?thesis by (simp add: parse_polish_def)
    next
      fix st'
      assume r: "reduce_loop (rev ts) [] = Inr st'" and cs: "list_all constructed st'"
        and ft: "list_all formula_token (rev ts)"
        and cat: "concat (map (\<lambda>a. concat (tokens_of a)) (rev st')) =
          concat (rev (rev ts)) @ concat (map (\<lambda>a. concat (tokens_of a)) (rev []))"
      show ?thesis
      proof (cases "length st' = 1")
        case False
        with t r show ?thesis by (simp add: parse_polish_def)
      next
        case True
        then obtain f where st': "st' = [f]" by (cases st') simp_all
        from cs st' have f: "constructed f" by simp
        from cat st' c have "concat (tokens_of f) = s" by simp
        with polish_tokens [OF f] have "polish f = Inr s" by simp
        moreover from t r st' have "parse_polish s = Inr f" by (simp add: parse_polish_def)
        moreover from ft have "list_all formula_token ts" by (simp add: list_all_iff)
        ultimately show ?thesis using f t by simp
      qed
    qed
  qed
qed

lemma parse_polish_iff: "parse_polish s = Inr f \<longleftrightarrow> constructed f \<and> polish f = Inr s"
proof
  assume p: "parse_polish s = Inr f"
  from parse_polish_result [of s] show "constructed f \<and> polish f = Inr s"
  proof (elim disjE exE conjE)
    fix g ts assume "parse_polish s = Inr g" "constructed g" "polish g = Inr s"
    with p show ?thesis by simp
  qed (simp_all add: p)
next
  assume "constructed f \<and> polish f = Inr s"
  then show "parse_polish s = Inr f" by (simp add: parse_polish_polish)
qed

lemma lexical_chars:
  assumes "t \<in> set [''T'', ''F'', ''~'', ''&'', ''|'', ''+'', ''<->'', ''->'', ''-&'', ''-|''] \<or>
          is_variable t = Inr True"
    and "c \<in> set t"
  shows "c \<in> set ''TF~&|+<->'' \<or> (CHR ''p'' \<le> c \<and> c \<le> CHR ''z'') \<or> decimal_digit c"
  using assms(1)
proof
  assume "t \<in> set [''T'', ''F'', ''~'', ''&'', ''|'', ''+'', ''<->'', ''->'', ''-&'', ''-|'']"
  with assms(2) show ?thesis by auto
next
  assume "is_variable t = Inr True"
  then obtain l ds where "t = l # ds" "CHR ''p'' \<le> l" "l \<le> CHR ''z''" "list_all decimal_digit ds"
    unfolding is_variable_iff by blast
  with assms(2) show ?thesis by (auto simp add: list_all_iff)
qed

lemma parse_polish_unrecognized:
  assumes c: "c \<in> set s"
    and u: "c \<notin> set ''TF~&|+<->''" "\<not> (CHR ''p'' \<le> c \<and> c \<le> CHR ''z'')" "\<not> decimal_digit c"
  shows "parse_polish s = Inl (ValueError ''Invalid symbol'')"
proof -
  have "tokenize_loop s 0 [] = Inl (ValueError ''Invalid symbol'') \<or>
     (\<exists>ts. tokenize_loop s 0 [] = Inr ts \<and> concat ts = s \<and>
        (\<forall>t \<in> set ts. t \<in> set [''T'', ''F'', ''~'', ''&'', ''|'', ''+'', ''<->'', ''->'', ''-&'', ''-|''] \<or>
          is_variable t = Inr True))"
    using tokenize_loop_result [of 0 s "[]"] by simp
  then show ?thesis
  proof (elim disjE exE conjE)
    assume "tokenize_loop s 0 [] = Inl (ValueError ''Invalid symbol'')"
    then show ?thesis by (simp add: parse_polish_def)
  next
    fix ts
    assume cat: "concat ts = s"
      and lex: "\<forall>t\<in>set ts. t \<in> set [''T'', ''F'', ''~'', ''&'', ''|'', ''+'', ''<->'', ''->'', ''-&'', ''-|''] \<or>
          is_variable t = Inr True"
    from c cat obtain t where t: "t \<in> set ts" "c \<in> set t" by auto
    from lex t(1) have "t \<in> set [''T'', ''F'', ''~'', ''&'', ''|'', ''+'', ''<->'', ''->'', ''-&'', ''-|''] \<or>
          is_variable t = Inr True" by blast
    from lexical_chars [OF this t(2)] u show ?thesis by blast
  qed
qed

lemma formula_token_chars:
  assumes "formula_token t"
  shows "CHR ''+'' \<notin> set t \<and> CHR ''<'' \<notin> set t"
proof (cases "is_variable t = Inr True")
  case True
  then obtain l ds where "t = l # ds" "CHR ''p'' \<le> l" "l \<le> CHR ''z''" "list_all decimal_digit ds"
    unfolding is_variable_iff by blast
  then show ?thesis by (auto simp add: list_all_iff decimal_digit_def less_eq_char_def)
next
  case False
  with assms show ?thesis
    by (auto simp add: formula_token_def is_constant_def is_unary_def is_binary_def)
qed

lemma polish_chars:
  assumes "constructed f" "polish f = Inr s"
  shows "CHR ''+'' \<notin> set s \<and> CHR ''<'' \<notin> set s"
proof -
  from assms polish_tokens have s: "s = concat (tokens_of f)" by simp
  from assms(1) have "list_all formula_token (tokens_of f)" by (rule tokens_of_formula_tokens)
  then have "\<forall>t \<in> set (tokens_of f). CHR ''+'' \<notin> set t \<and> CHR ''<'' \<notin> set t"
    using formula_token_chars by (simp add: list_all_iff)
  then show ?thesis unfolding s by auto
qed

lemma repr_chars:
  "constructed f \<Longrightarrow> repr f = Inr s \<Longrightarrow> CHR ''+'' \<notin> set s \<and> CHR ''<'' \<notin> set s"
proof (induction f arbitrary: s rule: constructed_induct)
  case (leaf r)
  from leaf.hyps have "formula_token r" by (auto simp add: formula_token_def)
  with leaf show ?case using formula_token_chars [of r] by (simp add: repr_leaf)
next
  case (unary a)
  then show ?case by (auto simp add: repr_unary split: sum.splits)
next
  case (binary r a b)
  from binary.hyps(1) have "formula_token r" by (simp add: formula_token_def)
  from formula_token_chars [OF this] binary show ?case
    by (auto simp add: repr_binary split: sum.splits)
qed

lemma operators_constructed:
  "constructed f \<Longrightarrow>
     \<exists>ops. operators f = Inr ops \<and> ops \<subseteq> {''T'', ''F'', ''~'', ''&'', ''|'', ''->''}"
proof (induction f rule: constructed_induct)
  case (leaf r)
  then show ?case
    by (auto simp add: is_constant_not_variable is_constant_def)
next
  case (unary a)
  then show ?case
    by (auto simp add: is_unary_def is_constant_def less_eq_char_def)
next
  case (binary r a b)
  then show ?case
    by (auto simp add: is_binary_not_variable is_binary_not_others is_binary_def)
qed

lemma Formula_init_binary_iff:
  "Formula_init r (Some a) (Some b) = Inr f \<longleftrightarrow> is_binary r \<and> f = Formula r (Some a) (Some b)"
  by (auto simp add: Formula_init_def is_binary_not_variable is_binary_not_others
        split: sum.splits if_splits)

lemma extended_not_formula_token:
  "op \<in> {''<->'', ''-&'', ''-|'', ''+''} \<Longrightarrow> \<not> formula_token op"
  by (auto simp add: formula_token_def is_constant_def is_unary_def is_binary_def less_eq_char_def)

lemma parse_prefix_extended:
  assumes op: "op \<in> {''<->'', ''-&'', ''-|'', ''+''}"
    and a: "parse_prefix u = Inr (Some a, op @ v)"
  shows "parse_prefix (CHR ''('' # u) = Inr (None, ''Invalid operator'')"
proof -
  from op have m: "match_operator candidates (op @ v) = Some (op, v)"
    using match_candidates [of v] by auto
  from op have nb: "\<not> is_binary op" "op @ v \<noteq> []" by (auto simp add: is_binary_def)
  show ?thesis unfolding parse_prefix_paren a using m nb by simp
qed

lemma parse_polish_extended:
  assumes t: "tokenize_loop s 0 [] = Inr res"
    and op: "op \<in> {''<->'', ''-&'', ''-|'', ''+''}" "op \<in> set res"
  shows "parse_polish s = Inl (ValueError ''Invalid'')"
proof -
  have "tokenize_loop s 0 [] = Inl (ValueError ''Invalid symbol'') \<or>
     (\<exists>ts. tokenize_loop s 0 [] = Inr ts \<and> concat ts = s \<and>
        (\<forall>t \<in> set ts. t \<in> set [''T'', ''F'', ''~'', ''&'', ''|'', ''+'', ''<->'', ''->'', ''-&'', ''-|''] \<or>
          is_variable t = Inr True))"
    using tokenize_loop_result [of 0 s "[]"] by simp
  with t have lex: "\<forall>t \<in> set res. t \<in> set [''T'', ''F'', ''~'', ''&'', ''|'', ''+'', ''<->'', ''->'', ''-&'', ''-|''] \<or>
          is_variable t = Inr True" by auto
  have ne: "\<forall>el \<in> set (rev res). el \<noteq> []"
  proof
    fix el assume "el \<in> set (rev res)"
    with lex have "el \<in> set [''T'', ''F'', ''~'', ''&'', ''|'', ''+'', ''<->'', ''->'', ''-&'', ''-|''] \<or>
          is_variable el = Inr True" by simp
    then show "el \<noteq> []" by (cases el) simp_all
  qed
  have "list_all constructed []" by simp
  from reduce_loop_result [OF ne this] show ?thesis
  proof (elim disjE exE conjE)
    assume "reduce_loop (rev res) [] = Inl (ValueError ''Invalid'')"
    with t show ?thesis by (simp add: parse_polish_def)
  next
    assume "list_all formula_token (rev res)"
    with op(2) have "formula_token op" by (simp add: list_all_iff)
    with extended_not_formula_token [OF op(1)] show ?thesis by simp
  qed
qed

lemma rejected_characters:
  assumes "CHR ''+'' \<in> set s \<or> CHR ''<'' \<in> set s"
  shows "is_formula s = Inr False \<and> (\<exists>e. parse_polish s = Inl e)"
proof
  have "\<not> (\<exists>f. parse_prefix s = Inr (Some f, []))"
  proof
    assume "\<exists>f. parse_prefix s = Inr (Some f, [])"
    then obtain f where "parse_prefix s = Inr (Some f, [])" by blast
    from parse_prefix_sound [OF this] have "constructed f" "repr f = Inr s" by auto
    from repr_chars [OF this] assms show False by simp
  qed
  then show "is_formula s = Inr False" by (simp add: is_formula_iff)
next
  show "\<exists>e. parse_polish s = Inl e"
  proof (cases "parse_polish s")
    case (Inl e)
    then show ?thesis by simp
  next
    case (Inr f)
    then have "constructed f" "polish f = Inr s" by (simp_all add: parse_polish_iff)
    from polish_chars [OF this] assms show ?thesis by simp
  qed
qed

subsection \<open>Polish round trip and errors\<close>

text \<open>
  Claim C4: for every constructed tree \<open>f\<close>, \<open>parse_polish(f.polish())\<close> returns
  \<open>f\<close>, which \<open>==\<close> accepts. In the stack reduction a binary operator takes the
  first popped node (the last of the stack) as operand \<open>now\<close> and the second popped
  node as operand \<open>next\<close>, so \<open>parse_polish("&pq")\<close> is the tree of \<open>(p&q)\<close>.
\<close>

theorem parse_polish_round_trip:
  "(constructed f \<longrightarrow>
      (\<exists>s g. polish f = Inr s \<and> parse_polish s = Inr g \<and> g = f \<and> Formula_eq g f = Inr True)) \<and>
   (is_binary el \<longrightarrow>
      reduce_step el (st @ [b, a]) = Inr (st @ [Formula el (Some a) (Some b)])) \<and>
   parse_polish ''&pq'' =
     Inr (Formula ''&'' (Some (Formula ''p'' None None)) (Some (Formula ''q'' None None)))"
proof (intro conjI impI)
  assume f: "constructed f"
  then obtain r where r: "repr f = Inr r" using repr_total by blast
  from f have "polish f = Inr (concat (tokens_of f))" by (rule polish_tokens)
  moreover from f this have "parse_polish (concat (tokens_of f)) = Inr f"
    by (rule parse_polish_polish)
  moreover from r have "Formula_eq f f = Inr True" by (simp add: Formula_eq_def)
  ultimately show "\<exists>s g. polish f = Inr s \<and> parse_polish s = Inr g \<and> g = f \<and>
      Formula_eq g f = Inr True" by simp
next
  assume "is_binary el"
  then show "reduce_step el (st @ [b, a]) = Inr (st @ [Formula el (Some a) (Some b)])"
    by (rule reduce_step_binary)
next
  show "parse_polish ''&pq'' =
     Inr (Formula ''&'' (Some (Formula ''p'' None None)) (Some (Formula ''q'' None None)))"
    by code_simp
qed

theorem parse_polish_round_trip_witness:
  "constructed (Formula ''->'' (Some (Formula ''p12'' None None))
       (Some (Formula ''~'' (Some (Formula ''T'' None None)) None))) \<and>
   polish (Formula ''->'' (Some (Formula ''p12'' None None))
       (Some (Formula ''~'' (Some (Formula ''T'' None None)) None))) = Inr ''->p12~T'' \<and>
   parse_polish ''->p12~T'' = Inr (Formula ''->'' (Some (Formula ''p12'' None None))
       (Some (Formula ''~'' (Some (Formula ''T'' None None)) None))) \<and>
   is_binary ''|'' \<and>
   reduce_step ''|'' [Formula ''q'' None None, Formula ''p'' None None] =
     Inr [Formula ''|'' (Some (Formula ''p'' None None)) (Some (Formula ''q'' None None))]"
proof -
  let ?f = "Formula ''->'' (Some (Formula ''p12'' None None))
       (Some (Formula ''~'' (Some (Formula ''T'' None None)) None))"
  have c: "constructed ?f" by code_simp
  have p: "polish ?f = Inr ''->p12~T''" by code_simp
  have b: "is_binary ''|''" by code_simp
  from parse_polish_round_trip
    [of ?f "''|''" "[]" "Formula ''q'' None None" "Formula ''p'' None None"] c p b
  show ?thesis by auto
qed

text \<open>
  Claim C9: \<open>parse_polish\<close> returns a formula or raises \<open>ValueError\<close>, nothing
  else; it returns \<open>f\<close> exactly when the text is the Polish notation of the constructed
  tree \<open>f\<close>. A character that no token contains raises \<open>Invalid symbol\<close>; an
  operator that finds too few nodes on the stack raises \<open>Invalid\<close>; a final stack that
  does not hold exactly one node raises \<open>Invalid\<close>.
\<close>

theorem parse_polish_errors:
  "((\<exists>g. parse_polish s = Inr g) \<or> parse_polish s = Inl (ValueError ''Invalid symbol'') \<or>
      parse_polish s = Inl (ValueError ''Invalid'')) \<and>
   (parse_polish s = Inr f \<longleftrightarrow> constructed f \<and> polish f = Inr s) \<and>
   (c \<in> set s \<and> c \<notin> set ''TF~&|+<->'' \<and> \<not> (CHR ''p'' \<le> c \<and> c \<le> CHR ''z'') \<and>
      \<not> decimal_digit c \<longrightarrow> parse_polish s = Inl (ValueError ''Invalid symbol'')) \<and>
   (tokenize_loop s 0 [] = Inr res \<and> rev res = pre @ el # more \<and>
      reduce_loop pre [] = Inr st \<and>
      (is_binary el \<and> length st < 2 \<or> is_unary el \<and> length st < 1) \<longrightarrow>
      reduce_step el st = Inl (ValueError ''Invalid'') \<and>
      parse_polish s = Inl (ValueError ''Invalid'')) \<and>
   (tokenize_loop s 0 [] = Inr res \<and> reduce_loop (rev res) [] = Inr st' \<and> length st' \<noteq> 1 \<longrightarrow>
      parse_polish s = Inl (ValueError ''Invalid'')) \<and>
   parse_polish ''&p'' = Inl (ValueError ''Invalid'') \<and>
   parse_polish ''pq'' = Inl (ValueError ''Invalid'') \<and>
   parse_polish '''' = Inl (ValueError ''Invalid'') \<and>
   parse_polish ''(p&q)'' = Inl (ValueError ''Invalid symbol'')"
proof (intro conjI impI)
  show "(\<exists>g. parse_polish s = Inr g) \<or> parse_polish s = Inl (ValueError ''Invalid symbol'') \<or>
      parse_polish s = Inl (ValueError ''Invalid'')"
    using parse_polish_result [of s] by blast
next
  show "parse_polish s = Inr f \<longleftrightarrow> constructed f \<and> polish f = Inr s"
    by (rule parse_polish_iff)
next
  assume "c \<in> set s \<and> c \<notin> set ''TF~&|+<->'' \<and> \<not> (CHR ''p'' \<le> c \<and> c \<le> CHR ''z'') \<and>
      \<not> decimal_digit c"
  then show "parse_polish s = Inl (ValueError ''Invalid symbol'')"
    using parse_polish_unrecognized [of c s] by blast
next
  assume h: "tokenize_loop s 0 [] = Inr res \<and> rev res = pre @ el # more \<and>
      reduce_loop pre [] = Inr st \<and>
      (is_binary el \<and> length st < 2 \<or> is_unary el \<and> length st < 1)"
  then have "is_binary el \<and> length st < 2 \<or> el = ''~'' \<and> st = []"
    by (auto simp add: is_unary_def)
  then show step: "reduce_step el st = Inl (ValueError ''Invalid'')"
    using reduce_step_binary_short [of el st] reduce_step_unary_short by auto
  from h have "reduce_loop (rev res) [] = reduce_loop (el # more) st"
    by (simp add: reduce_loop_append)
  with step have "reduce_loop (rev res) [] = Inl (ValueError ''Invalid'')" by simp
  with h show "parse_polish s = Inl (ValueError ''Invalid'')" by (simp add: parse_polish_def)
next
  assume "tokenize_loop s 0 [] = Inr res \<and> reduce_loop (rev res) [] = Inr st' \<and> length st' \<noteq> 1"
  then show "parse_polish s = Inl (ValueError ''Invalid'')" by (simp add: parse_polish_def)
next
  show "parse_polish ''&p'' = Inl (ValueError ''Invalid'')" by code_simp
next
  show "parse_polish ''pq'' = Inl (ValueError ''Invalid'')" by code_simp
next
  show "parse_polish '''' = Inl (ValueError ''Invalid'')" by code_simp
next
  show "parse_polish ''(p&q)'' = Inl (ValueError ''Invalid symbol'')" by code_simp
qed

theorem parse_polish_errors_witness:
  "tokenize_loop ''&p'' 0 [] = Inr [''&'', ''p''] \<and>
   reduce_loop [''p''] [] = Inr [Formula ''p'' None None] \<and>
   reduce_step ''&'' [Formula ''p'' None None] = Inl (ValueError ''Invalid'') \<and>
   parse_polish ''&p'' = Inl (ValueError ''Invalid'') \<and>
   tokenize_loop ''pq'' 0 [] = Inr [''p'', ''q''] \<and>
   reduce_loop [''q'', ''p''] [] = Inr [Formula ''q'' None None, Formula ''p'' None None] \<and>
   parse_polish ''pq'' = Inl (ValueError ''Invalid'') \<and>
   CHR ''('' \<in> set ''(p&q)'' \<and>
   parse_polish ''(p&q)'' = Inl (ValueError ''Invalid symbol'') \<and>
   constructed (Formula ''~'' (Some (Formula ''T'' None None)) None) \<and>
   polish (Formula ''~'' (Some (Formula ''T'' None None)) None) = Inr ''~T'' \<and>
   parse_polish ''~T'' = Inr (Formula ''~'' (Some (Formula ''T'' None None)) None)"
proof -
  have 1: "tokenize_loop ''&p'' 0 [] = Inr [''&'', ''p''] \<and> rev [''&'', ''p''] = [''p''] @ ''&'' # [] \<and>
      reduce_loop [''p''] [] = Inr [Formula ''p'' None None] \<and>
      (is_binary ''&'' \<and> length [Formula ''p'' None None] < 2 \<or>
       is_unary ''&'' \<and> length [Formula ''p'' None None] < 1)"
    by code_simp
  have 2: "tokenize_loop ''pq'' 0 [] = Inr [''p'', ''q''] \<and>
      reduce_loop (rev [''p'', ''q'']) [] = Inr [Formula ''q'' None None, Formula ''p'' None None] \<and>
      length [Formula ''q'' None None, Formula ''p'' None None] \<noteq> 1"
    by code_simp
  have 3: "CHR ''('' \<in> set ''(p&q)'' \<and> CHR ''('' \<notin> set ''TF~&|+<->'' \<and>
      \<not> (CHR ''p'' \<le> CHR ''('' \<and> CHR ''('' \<le> CHR ''z'') \<and> \<not> decimal_digit CHR ''(''"
    by code_simp
  have 4: "constructed (Formula ''~'' (Some (Formula ''T'' None None)) None) \<and>
      polish (Formula ''~'' (Some (Formula ''T'' None None)) None) = Inr ''~T''"
    by code_simp
  from parse_polish_errors [of "''&p''" "Formula ''p'' None None" "CHR ''(''" "[''&'', ''p'']"
      "[''p'']" "''&''" "[]" "[Formula ''p'' None None]" "[]"] 1
  have a: "reduce_step ''&'' [Formula ''p'' None None] = Inl (ValueError ''Invalid'') \<and>
      parse_polish ''&p'' = Inl (ValueError ''Invalid'')" by blast
  from parse_polish_errors [of "''pq''" "Formula ''p'' None None" "CHR ''(''" "[''p'', ''q'']"
      "[]" "''&''" "[]" "[]" "[Formula ''q'' None None, Formula ''p'' None None]"] 2
  have b: "parse_polish ''pq'' = Inl (ValueError ''Invalid'')" by blast
  from parse_polish_errors [of "''(p&q)''" "Formula ''p'' None None" "CHR ''(''" "[]"
      "[]" "''&''" "[]" "[]" "[]"] 3
  have c: "parse_polish ''(p&q)'' = Inl (ValueError ''Invalid symbol'')" by blast
  from parse_polish_errors [of "''~T''" "Formula ''~'' (Some (Formula ''T'' None None)) None"
      "CHR ''(''" "[]" "[]" "''&''" "[]" "[]" "[]"] 4
  have d: "parse_polish ''~T'' = Inr (Formula ''~'' (Some (Formula ''T'' None None)) None)"
    by blast
  from 1 2 3 4 a b c d show ?thesis by simp
qed

subsection \<open>The extended operator candidates\<close>

text \<open>
  Claim C10: both parsers read the candidates \<open><->\<close>, \<open>-&\<close>, \<open>-|\<close> and
  \<open>+\<close> as operator tokens and then reject them: \<open>_parse_prefix\<close> returns the message
  \<open>Invalid operator\<close> when one of them follows the first operand of a parenthesis, and
  \<open>parse_polish\<close> raises \<open>ValueError\<close> when one of them is among the tokens. A text
  that contains \<open>+\<close> or \<open><\<close> is not a formula in either notation. The constructor
  accepts a root with two operands exactly when the root is \<open>&\<close>, \<open>|\<close> or
  \<open>->\<close>; the parsers return binary nodes with these roots only and accept each of them;
  the operators of a constructed tree are among \<open>T\<close>, \<open>F\<close>, \<open>~\<close>, \<open>&\<close>,
  \<open>|\<close> and \<open>->\<close>.
\<close>

theorem extended_operators_rejected:
  "(op \<in> {''<->'', ''-&'', ''-|'', ''+''} \<and> parse_prefix u = Inr (Some a, op @ v) \<longrightarrow>
      parse_prefix (CHR ''('' # u) = Inr (None, ''Invalid operator'')) \<and>
   (tokenize_loop s 0 [] = Inr res \<and> op \<in> {''<->'', ''-&'', ''-|'', ''+''} \<and> op \<in> set res \<longrightarrow>
      parse_polish s = Inl (ValueError ''Invalid'')) \<and>
   (CHR ''+'' \<in> set t \<or> CHR ''<'' \<in> set t \<longrightarrow>
      is_formula t = Inr False \<and> (\<exists>e. parse_polish t = Inl e)) \<and>
   (Formula_init r (Some b) (Some c) = Inr f \<longleftrightarrow> is_binary r \<and> f = Formula r (Some b) (Some c)) \<and>
   (is_binary r \<longleftrightarrow> r \<in> {''&'', ''|'', ''->''}) \<and>
   (parse t = Inr (Formula r (Some b) (Some c)) \<or> parse_polish t = Inr (Formula r (Some b) (Some c))
      \<longrightarrow> is_binary r) \<and>
   (is_binary r \<and> constructed b \<and> constructed c \<longrightarrow>
      (\<exists>i p. repr (Formula r (Some b) (Some c)) = Inr i \<and> parse i = Inr (Formula r (Some b) (Some c)) \<and>
             polish (Formula r (Some b) (Some c)) = Inr p \<and>
             parse_polish p = Inr (Formula r (Some b) (Some c)))) \<and>
   (constructed g \<longrightarrow>
      (\<exists>ops. operators g = Inr ops \<and> ops \<subseteq> {''T'', ''F'', ''~'', ''&'', ''|'', ''->''})) \<and>
   tokenize_loop ''<->pq'' 0 [] = Inr [''<->'', ''p'', ''q''] \<and>
   tokenize_loop ''-&pq'' 0 [] = Inr [''-&'', ''p'', ''q''] \<and>
   tokenize_loop ''-|pq'' 0 [] = Inr [''-|'', ''p'', ''q''] \<and>
   tokenize_loop ''+pq'' 0 [] = Inr [''+'', ''p'', ''q''] \<and>
   parse_prefix ''(p<->q)'' = Inr (None, ''Invalid operator'') \<and>
   parse_prefix ''(p-&q)'' = Inr (None, ''Invalid operator'') \<and>
   parse_prefix ''(p-|q)'' = Inr (None, ''Invalid operator'') \<and>
   parse_prefix ''(p+q)'' = Inr (None, ''Invalid operator'')"
proof (intro conjI impI)
  assume "op \<in> {''<->'', ''-&'', ''-|'', ''+''} \<and> parse_prefix u = Inr (Some a, op @ v)"
  then show "parse_prefix (CHR ''('' # u) = Inr (None, ''Invalid operator'')"
    using parse_prefix_extended by blast
next
  assume "tokenize_loop s 0 [] = Inr res \<and> op \<in> {''<->'', ''-&'', ''-|'', ''+''} \<and> op \<in> set res"
  then show "parse_polish s = Inl (ValueError ''Invalid'')"
    using parse_polish_extended by blast
next
  assume "CHR ''+'' \<in> set t \<or> CHR ''<'' \<in> set t"
  then show "is_formula t = Inr False" "\<exists>e. parse_polish t = Inl e"
    using rejected_characters by blast+
next
  show "Formula_init r (Some b) (Some c) = Inr f \<longleftrightarrow> is_binary r \<and> f = Formula r (Some b) (Some c)"
    by (rule Formula_init_binary_iff)
next
  show "is_binary r \<longleftrightarrow> r \<in> {''&'', ''|'', ''->''}" by (auto simp add: is_binary_def)
next
  assume "parse t = Inr (Formula r (Some b) (Some c)) \<or>
    parse_polish t = Inr (Formula r (Some b) (Some c))"
  then have "constructed (Formula r (Some b) (Some c))"
    using parse_prefix_sound [of t "Formula r (Some b) (Some c)" "[]"]
    by (auto simp add: parse_iff parse_polish_iff)
  then show "is_binary r" by (simp add: constructed_iff)
next
  assume h: "is_binary r \<and> constructed b \<and> constructed c"
  then have c: "constructed (Formula r (Some b) (Some c))" by (simp add: constructed_binary)
  then obtain i where i: "repr (Formula r (Some b) (Some c)) = Inr i" using repr_total by blast
  from c have p: "polish (Formula r (Some b) (Some c)) = Inr (concat (tokens_of (Formula r (Some b) (Some c))))"
    by (rule polish_tokens)
  from parse_repr [OF c i] parse_polish_polish [OF c p] i p
  show "\<exists>i p. repr (Formula r (Some b) (Some c)) = Inr i \<and> parse i = Inr (Formula r (Some b) (Some c)) \<and>
             polish (Formula r (Some b) (Some c)) = Inr p \<and>
             parse_polish p = Inr (Formula r (Some b) (Some c))" by blast
next
  assume "constructed g"
  then show "\<exists>ops. operators g = Inr ops \<and> ops \<subseteq> {''T'', ''F'', ''~'', ''&'', ''|'', ''->''}"
    by (rule operators_constructed)
next
  show "tokenize_loop ''<->pq'' 0 [] = Inr [''<->'', ''p'', ''q'']" by code_simp
next
  show "tokenize_loop ''-&pq'' 0 [] = Inr [''-&'', ''p'', ''q'']" by code_simp
next
  show "tokenize_loop ''-|pq'' 0 [] = Inr [''-|'', ''p'', ''q'']" by code_simp
next
  show "tokenize_loop ''+pq'' 0 [] = Inr [''+'', ''p'', ''q'']" by code_simp
next
  show "parse_prefix ''(p<->q)'' = Inr (None, ''Invalid operator'')" by code_simp
next
  show "parse_prefix ''(p-&q)'' = Inr (None, ''Invalid operator'')" by code_simp
next
  show "parse_prefix ''(p-|q)'' = Inr (None, ''Invalid operator'')" by code_simp
next
  show "parse_prefix ''(p+q)'' = Inr (None, ''Invalid operator'')" by code_simp
qed

theorem extended_operators_rejected_witness:
  "parse_prefix ''p-|q)'' = Inr (Some (Formula ''p'' None None), ''-|'' @ ''q)'') \<and>
   parse_prefix (CHR ''('' # ''p-|q)'') = Inr (None, ''Invalid operator'') \<and>
   tokenize_loop ''~-|pq'' 0 [] = Inr [''~'', ''-|'', ''p'', ''q''] \<and>
   parse_polish ''~-|pq'' = Inl (ValueError ''Invalid'') \<and>
   CHR ''+'' \<in> set ''(p+q)'' \<and> is_formula ''(p+q)'' = Inr False \<and>
   (\<exists>e. parse_polish ''(p+q)'' = Inl e) \<and>
   is_binary ''->'' \<and>
   parse ''(p->q)'' = Inr (Formula ''->'' (Some (Formula ''p'' None None)) (Some (Formula ''q'' None None))) \<and>
   (\<exists>ops. operators (Formula ''->'' (Some (Formula ''p'' None None)) (Some (Formula ''q'' None None)))
       = Inr ops \<and> ops \<subseteq> {''T'', ''F'', ''~'', ''&'', ''|'', ''->''})"
proof -
  let ?p = "Formula ''p'' None None" and ?q = "Formula ''q'' None None"
  have 1: "''-|'' \<in> {''<->'', ''-&'', ''-|'', ''+''} \<and>
      parse_prefix ''p-|q)'' = Inr (Some ?p, ''-|'' @ ''q)'')" by code_simp
  have 2: "tokenize_loop ''~-|pq'' 0 [] = Inr [''~'', ''-|'', ''p'', ''q''] \<and>
      ''-|'' \<in> {''<->'', ''-&'', ''-|'', ''+''} \<and> ''-|'' \<in> set [''~'', ''-|'', ''p'', ''q'']" by code_simp
  have 3: "CHR ''+'' \<in> set ''(p+q)'' \<or> CHR ''<'' \<in> set ''(p+q)''" by code_simp
  have 4: "parse ''(p->q)'' = Inr (Formula ''->'' (Some ?p) (Some ?q)) \<or>
      parse_polish ''(p->q)'' = Inr (Formula ''->'' (Some ?p) (Some ?q))" by code_simp
  have 5: "constructed (Formula ''->'' (Some ?p) (Some ?q))" by code_simp
  have 6: "parse ''(p->q)'' = Inr (Formula ''->'' (Some ?p) (Some ?q))" by code_simp
  from extended_operators_rejected [of "''-|''" "''p-|q)''" ?p "''q)''" "''~-|pq''"
      "[''~'', ''-|'', ''p'', ''q'']" "''(p+q)''" "''->''" ?p ?q "Formula ''->'' (Some ?p) (Some ?q)"
      "Formula ''->'' (Some ?p) (Some ?q)"] 1 2 3
  have a: "parse_prefix (CHR ''('' # ''p-|q)'') = Inr (None, ''Invalid operator'')"
    and b: "parse_polish ''~-|pq'' = Inl (ValueError ''Invalid'')"
    and c: "is_formula ''(p+q)'' = Inr False" "\<exists>e. parse_polish ''(p+q)'' = Inl e"
    by blast+
  from extended_operators_rejected [of "''-|''" "''p-|q)''" ?p "''q)''" "''~-|pq''"
      "[''~'', ''-|'', ''p'', ''q'']" "''(p->q)''" "''->''" ?p ?q "Formula ''->'' (Some ?p) (Some ?q)"
      "Formula ''->'' (Some ?p) (Some ?q)"] 4 5
  have d: "is_binary ''->''"
    and e: "\<exists>ops. operators (Formula ''->'' (Some ?p) (Some ?q)) = Inr ops \<and>
        ops \<subseteq> {''T'', ''F'', ''~'', ''&'', ''|'', ''->''}"
    by blast+
  from 1 2 3 6 a b c d e show ?thesis by simp
qed

subsection \<open>Substitutions\<close>

text \<open>
  Claim C2: \<open>substitute_variables\<close> with an empty map returns a formula equal to the
  input. In the source the body of the method ends after the check of the keys, so the
  call returns \<open>None\<close> for every formula.
\<close>

theorem substitute_variables_returns_None:
  "substitute_variables f [] = Inr None"
  by (simp add: substitute_variables_def)

text \<open>
  Claim C3: substituting \<open>&\<close> by \<open>~(~p|~q)\<close> in \<open>((x&y)&~z)\<close> returns the
  formula \<open>~(~~(~x|~y)|~~z)\<close>. Both texts parse, the map passes the checks of
  \<open>substitute_operators\<close>, and the call returns \<open>None\<close>: the body of the method ends
  after the checks. The expected text is a formula, so the expected result exists.
\<close>

theorem substitute_operators_returns_None:
  "parse ''((x&y)&~z)'' =
     Inr (Formula ''&''
            (Some (Formula ''&'' (Some (Formula ''x'' None None)) (Some (Formula ''y'' None None))))
            (Some (Formula ''~'' (Some (Formula ''z'' None None)) None))) \<and>
   parse ''~(~p|~q)'' =
     Inr (Formula ''~'' (Some (Formula ''|''
            (Some (Formula ''~'' (Some (Formula ''p'' None None)) None))
            (Some (Formula ''~'' (Some (Formula ''q'' None None)) None)))) None) \<and>
   substitute_operators
     (Formula ''&''
            (Some (Formula ''&'' (Some (Formula ''x'' None None)) (Some (Formula ''y'' None None))))
            (Some (Formula ''~'' (Some (Formula ''z'' None None)) None)))
     [(''&'', Formula ''~'' (Some (Formula ''|''
            (Some (Formula ''~'' (Some (Formula ''p'' None None)) None))
            (Some (Formula ''~'' (Some (Formula ''q'' None None)) None)))) None)] = Inr None \<and>
   is_formula ''~(~~(~x|~y)|~~z)'' = Inr True"
  by code_simp

end
